theory Spec2Isabelle
  imports Complex_Main
begin

section \<open>zenOut: the session clock and the cue scheduler of \<^verbatim>\<open>src/App.tsx\<close>\<close>

text \<open>
  The development embeds the timing core of the React component \<^verbatim>\<open>App\<close> and of its
  child \<^verbatim>\<open>BreathPrompt\<close>. Millisecond counts and the phase index are \<^typ>\<open>int\<close>;
  quantities obtained by division (seconds, volume, progress) are \<^typ>\<open>rat\<close>, so the
  rounding of binary floating point is not modelled.
\<close>

subsection \<open>Configuration\<close>

definition INHALE_MS :: int where "INHALE_MS = 4000"
definition EXHALE_MS :: int where "EXHALE_MS = 8000"
definition CYCLE_MS :: int where "CYCLE_MS = INHALE_MS + EXHALE_MS"

datatype PhaseKey = P1 | P2 | P3 | P4 | P5

datatype Illo = Eyes | Ears | Neck

record Phase =
  key :: PhaseKey
  name :: string
  illo :: "Illo option"

definition PHASES :: "Phase list" where
  "PHASES =
    [\<lparr>key = P1, name = ''Resonant Breathing'', illo = None\<rparr>,
     \<lparr>key = P2, name = ''Oms (Humming Exhales)'', illo = None\<rparr>,
     \<lparr>key = P3, name = ''Ear Massage'', illo = Some Ears\<rparr>,
     \<lparr>key = P4, name = ''Neck Massage'', illo = Some Neck\<rparr>,
     \<lparr>key = P5, name = ''Eye Massage'', illo = Some Eyes\<rparr>]"

subsection \<open>BreathPrompt: sub-state, text and the returned element\<close>

text \<open>
  JavaScript's \<^verbatim>\<open>%\<close> on numbers truncates the quotient towards zero, so the result has
  the sign of the dividend.
\<close>

definition js_trunc :: "rat \<Rightarrow> int" where
  "js_trunc q = (if 0 \<le> q then \<lfloor>q\<rfloor> else \<lceil>q\<rceil>)"

definition js_rem :: "rat \<Rightarrow> rat \<Rightarrow> rat" where
  "js_rem x y = x - y * of_int (js_trunc (x / y))"

text \<open>\<^verbatim>\<open>const elapsedSeconds = ((now - cycleTime) / 1000) % 12\<close>, both times in ms.\<close>

definition elapsedSeconds :: "int \<Rightarrow> int \<Rightarrow> rat" where
  "elapsedSeconds now cycleTime = js_rem (of_int (now - cycleTime) / 1000) 12"

definition isIn :: "rat \<Rightarrow> bool" where
  "isIn e \<longleftrightarrow> e < 4"

definition text_of :: "rat \<Rightarrow> string" where
  "text_of e = (if isIn e then ''breathe in...'' else ''breathe out...'')"

text \<open>
  What the component shows: the default text while no cycle time is set (\<^verbatim>\<open>!cycleTime\<close>
  holds for \<^verbatim>\<open>null\<close> and for \<^verbatim>\<open>0\<close>), the text of the sub-state otherwise.
\<close>

definition BreathPrompt :: "int \<Rightarrow> int option \<Rightarrow> string" where
  "BreathPrompt now cycleTime =
    (case cycleTime of
       None \<Rightarrow> ''breathe in...''
     | Some c \<Rightarrow> if c = 0 then ''breathe in...'' else text_of (elapsedSeconds now c))"

text \<open>
  The \<^verbatim>\<open>span\<close> that the component returns (lines 60 to 124), with its text and the
  style properties in which the two branches differ, and its style opacity. Lines 90 to
  102 compute a local variable \<^verbatim>\<open>opacity\<close> that the returned element does not read: in
  both branches the style carries the literal \<^verbatim>\<open>opacity: 1\<close>.
\<close>

record Span =
  spanText :: string
  fontSize :: int
  styleOpacity :: rat
  zIndex :: "int option"

definition BreathPromptSpan :: "int \<Rightarrow> int option \<Rightarrow> Span" where
  "BreathPromptSpan now cycleTime =
    (case cycleTime of
       None \<Rightarrow>
        \<lparr>spanText = ''breathe in...'', fontSize = 24, styleOpacity = 1, zIndex = None\<rparr>
     | Some c \<Rightarrow>
        if c = 0
        then \<lparr>spanText = ''breathe in...'', fontSize = 24, styleOpacity = 1, zIndex = None\<rparr>
        else \<lparr>spanText = text_of (elapsedSeconds now c), fontSize = 20, styleOpacity = 1,
               zIndex = Some 999\<rparr>)"

subsection \<open>Host objects: audio elements and timers\<close>

text \<open>
  An \<^verbatim>\<open>HTMLAudioElement\<close>, with the two expando properties \<^verbatim>\<open>_fadeTimeout\<close> and
  \<^verbatim>\<open>_fadeInterval\<close> that \<^verbatim>\<open>playOm\<close> stores on the hum element. \<^verbatim>\<open>play()\<close> is taken to
  succeed (a rejected promise is ignored by the code and leaves the element paused). The
  advance of \<open>currentTime\<close> during playback is left to the host: the theorems about
  positions quantify over arbitrary positions.
\<close>

record Audio =
  paused :: bool
  currentTime :: rat
  volume :: rat
  muted :: bool
  loop :: bool
  fadeTimeout :: "nat option"
  fadeInterval :: "nat option"

definition newAudio :: Audio where
  "newAudio = \<lparr>paused = True, currentTime = 0, volume = 1, muted = False, loop = False,
     fadeTimeout = None, fadeInterval = None\<rparr>"

definition play :: "Audio \<Rightarrow> Audio" where
  "play a = a\<lparr>paused := False\<rparr>"

definition pause :: "Audio \<Rightarrow> Audio" where
  "pause a = a\<lparr>paused := True\<rparr>"

text \<open>\<^verbatim>\<open>x.pause(); x.currentTime = 0\<close>, the idiom used for every stop.\<close>

definition pauseAndRewind :: "Audio \<Rightarrow> Audio" where
  "pauseAndRewind a = (pause a)\<lparr>currentTime := 0\<rparr>"

text \<open>
  The callbacks the component registers with \<^verbatim>\<open>setInterval\<close> and \<^verbatim>\<open>setTimeout\<close>. The fade
  interval's closure owns the counter \<^verbatim>\<open>step\<close>, kept here with the callback.
\<close>

datatype Callback = PhaseTimer | StartOmCycle | PlayOm | FadeTimeout | FadeInterval nat

record Timer =
  handle :: nat
  due :: int
  every :: "int option"
  callback :: Callback

subsection \<open>The state of the component App\<close>

text \<open>
  The five \<^verbatim>\<open>useState\<close> cells, the refs, the closure variables of the two effects that
  return a cleanup (\<open>omEffect\<close>: \<^verbatim>\<open>startOmCycle\<close> and \<^verbatim>\<open>omInterval\<close> of the mounted hum
  effect; \<open>phaseTimerEffect\<close>: \<^verbatim>\<open>id\<close> of the mounted phase timer), and the host's timer
  table and clock (ms).
\<close>

record App =
  started :: bool
  phaseIndex :: int
  phaseDurationMs :: int
  remaining :: int
  ambienceOn :: bool
  audioRef :: "Audio option"
  omAudioRef :: "Audio option"
  chimeAudioRef :: "Audio option"
  phaseIndexRef :: int
  isTransitioningRef :: bool
  omEffect :: "(nat \<times> nat option) option"
  phaseTimerEffect :: "nat option"
  timers :: "Timer list"
  nextHandle :: nat
  clock :: int

definition initial :: App where
  "initial = \<lparr>started = False, phaseIndex = 0, phaseDurationMs = 60000, remaining = 60000,
     ambienceOn = True, audioRef = None, omAudioRef = None, chimeAudioRef = None,
     phaseIndexRef = 0, isTransitioningRef = False, omEffect = None,
     phaseTimerEffect = None, timers = [], nextHandle = 1, clock = 0\<rparr>"

definition setTimer :: "Callback \<Rightarrow> int \<Rightarrow> int option \<Rightarrow> App \<Rightarrow> App" where
  "setTimer cb delay rep s =
    s\<lparr>timers := timers s @
          [\<lparr>handle = nextHandle s, due = clock s + delay, every = rep, callback = cb\<rparr>],
      nextHandle := Suc (nextHandle s)\<rparr>"

definition clearTimer :: "nat \<Rightarrow> App \<Rightarrow> App" where
  "clearTimer h s = s\<lparr>timers := filter (\<lambda>t. handle t \<noteq> h) (timers s)\<rparr>"

text \<open>\<^verbatim>\<open>clearTimeout(undefined)\<close> does nothing.\<close>

definition clearTimerOpt :: "nat option \<Rightarrow> App \<Rightarrow> App" where
  "clearTimerOpt h s = (case h of None \<Rightarrow> s | Some i \<Rightarrow> clearTimer i s)"

text \<open>
  \<^verbatim>\<open>const current = PHASES[phaseIndex]\<close>; out of range JavaScript yields \<^verbatim>\<open>undefined\<close>,
  here \<open>None\<close>.
\<close>

definition current :: "App \<Rightarrow> Phase option" where
  "current s =
    (if 0 \<le> phaseIndex s \<and> phaseIndex s < int (length PHASES)
     then Some (PHASES ! nat (phaseIndex s)) else None)"

definition isComplete :: "App \<Rightarrow> bool" where
  "isComplete s \<longleftrightarrow>
     started s \<and> phaseIndex s = int (length PHASES) - 1 \<and> remaining s = 0"

text \<open>\<^verbatim>\<open>progress\<close> (lines 351 to 355).\<close>

definition progress :: "App \<Rightarrow> rat" where
  "progress s =
    (let per = 100 / of_nat (length PHASES);
         withinPhase = 1 - of_int (remaining s) / of_int (phaseDurationMs s)
     in min 100 (of_int (phaseIndex s) * per + withinPhase * per))"

subsection \<open>Timer callbacks\<close>

text \<open>
  The updater passed to \<^verbatim>\<open>setRemaining\<close> by the phase timer (lines 312 to 326), together
  with the \<^verbatim>\<open>setPhaseIndex(p => p + 1)\<close> it issues.
\<close>

definition phaseTimerCb :: "App \<Rightarrow> App" where
  "phaseTimerCb s =
    (let prev = remaining s; currentPhase = phaseIndexRef s in
     if prev \<le> 1000 \<and> \<not> isTransitioningRef s then
       (if currentPhase < int (length PHASES) - 1
        then s\<lparr>isTransitioningRef := True, phaseIndex := phaseIndex s + 1,
               remaining := max 0 (prev - 1000)\<rparr>
        else s\<lparr>remaining := max 0 (prev - 1000)\<rparr>)
     else s\<lparr>remaining := prev - 1000\<rparr>)"

text \<open>\<^verbatim>\<open>playOm\<close> (lines 211 to 253): start the hum and schedule its fade.\<close>

definition playOm :: "App \<Rightarrow> App" where
  "playOm s =
    (let a0 = (case omAudioRef s of None \<Rightarrow> newAudio\<lparr>volume := 2 / 10\<rparr> | Some a \<Rightarrow> a);
         a1 = play (a0\<lparr>currentTime := 0, volume := 2 / 10\<rparr>);
         s1 = clearTimerOpt (fadeInterval a1) (clearTimerOpt (fadeTimeout a1) s);
         h = nextHandle s1
     in (setTimer FadeTimeout 7000 None s1)\<lparr>omAudioRef := Some (a1\<lparr>fadeTimeout := Some h\<rparr>)\<rparr>)"

text \<open>The body of the fade timeout (lines 238 to 252): start the 50 ms fade interval.\<close>

definition fadeTimeoutCb :: "App \<Rightarrow> App" where
  "fadeTimeoutCb s =
    (case omAudioRef s of
       None \<Rightarrow> s
     | Some a \<Rightarrow>
        (setTimer (FadeInterval 0) (1000 div 20) (Some (1000 div 20)) s)
          \<lparr>omAudioRef := Some (a\<lparr>fadeInterval := Some (nextHandle s)\<rparr>)\<rparr>)"

text \<open>
  One run of the fade interval (lines 242 to 251), for the interval with handle \<open>h\<close> whose
  closure holds \<open>step\<close>.
\<close>

definition fadeIntervalCb :: "nat \<Rightarrow> nat \<Rightarrow> App \<Rightarrow> App" where
  "fadeIntervalCb h step s =
    (case omAudioRef s of
       None \<Rightarrow> s
     | Some a \<Rightarrow>
        (let step1 = step + 1;
             a1 = a\<lparr>volume := max 0 (2 / 10 * (1 - of_nat step1 / 20))\<rparr>;
             s1 = s\<lparr>timers := map (\<lambda>t. if handle t = h
                                         then t\<lparr>callback := FadeInterval step1\<rparr> else t)
                                  (timers s)\<rparr>
         in if step1 \<ge> 20
            then (clearTimerOpt (fadeInterval a1) s1)
                   \<lparr>omAudioRef := Some (pauseAndRewind (a1\<lparr>volume := 0\<rparr>))\<rparr>
            else s1\<lparr>omAudioRef := Some a1\<rparr>))"

text \<open>\<^verbatim>\<open>playOmForExhale\<close> (lines 209 to 260).\<close>

definition playOmForExhale :: "App \<Rightarrow> App" where
  "playOmForExhale s =
    (let s1 = playOm s;
         h = nextHandle s1
     in (setTimer PlayOm 12000 (Some 12000) s1)
          \<lparr>omEffect := map_option (\<lambda>(c, i). (c, Some h)) (omEffect s1)\<rparr>)"

subsection \<open>Effects\<close>

text \<open>
  Each effect reads the state cells of the render it belongs to (\<open>r\<close>) and acts on the
  refs, the audio elements and the timers (\<open>s\<close>). In source order.
\<close>

definition stopAudioEffect :: "App \<Rightarrow> App \<Rightarrow> App" where
  "stopAudioEffect r s =
    (if isComplete r
     then s\<lparr>audioRef := map_option pauseAndRewind (audioRef s),
            omAudioRef := map_option pauseAndRewind (omAudioRef s),
            chimeAudioRef := map_option pauseAndRewind (chimeAudioRef s)\<rparr>
     else s)"

definition keepAmbienceEffect :: "App \<Rightarrow> App \<Rightarrow> App" where
  "keepAmbienceEffect r s =
    (case audioRef s of
       None \<Rightarrow> s
     | Some a \<Rightarrow>
        if started r \<and> \<not> isComplete r \<and> ambienceOn r \<and> paused a
        then s\<lparr>audioRef := Some (play a)\<rparr> else s)"

definition refEffect :: "App \<Rightarrow> App \<Rightarrow> App" where
  "refEffect r s = s\<lparr>phaseIndexRef := phaseIndex r, isTransitioningRef := False\<rparr>"

definition chimeEffect :: "App \<Rightarrow> App \<Rightarrow> App" where
  "chimeEffect r s =
    (if \<not> started r then s
     else
       (let a = (case chimeAudioRef s of None \<Rightarrow> newAudio\<lparr>volume := 1 / 10\<rparr> | Some a \<Rightarrow> a)
        in s\<lparr>chimeAudioRef := Some (play (a\<lparr>currentTime := 0, volume := 1 / 10\<rparr>))\<rparr>))"

text \<open>
  The hum effect (lines 203 to 273) and its cleanup. With \<open>current r = None\<close> the source
  would fail on \<^verbatim>\<open>current.key\<close>; the index is always in range (see the range invariant), and
  the model mounts nothing there.
\<close>

definition omMount :: "App \<Rightarrow> App \<Rightarrow> App" where
  "omMount r s =
    (if \<not> started r \<or> current r = None \<or> map_option key (current r) = Some P1 \<or> isComplete r
     then s\<lparr>omEffect := None\<rparr>
     else (setTimer StartOmCycle 4000 None s)\<lparr>omEffect := Some (nextHandle s, None)\<rparr>)"

definition omCleanup :: "App \<Rightarrow> App" where
  "omCleanup s =
    (case omEffect s of
       None \<Rightarrow> s
     | Some (startOmCycle, omInterval) \<Rightarrow>
        (clearTimerOpt omInterval (clearTimer startOmCycle s))
          \<lparr>omAudioRef := map_option pauseAndRewind (omAudioRef s)\<rparr>)"

text \<open>The phase timer effect (lines 306 to 329) and its cleanup.\<close>

definition phaseTimerMount :: "App \<Rightarrow> App \<Rightarrow> App" where
  "phaseTimerMount r s =
    (if \<not> started r then s\<lparr>phaseTimerEffect := None\<rparr>
     else (setTimer PhaseTimer 1000 (Some 1000) s)\<lparr>phaseTimerEffect := Some (nextHandle s)\<rparr>)"

definition phaseTimerCleanup :: "App \<Rightarrow> App" where
  "phaseTimerCleanup s = clearTimerOpt (phaseTimerEffect s) s"

definition resetRemainingEffect :: "App \<Rightarrow> App \<Rightarrow> App" where
  "resetRemainingEffect r s = (if started r then s\<lparr>remaining := phaseDurationMs r\<rparr> else s)"

definition muteEffect :: "App \<Rightarrow> App \<Rightarrow> App" where
  "muteEffect r s =
    (case audioRef s of
       None \<Rightarrow> s
     | Some a \<Rightarrow>
        (let a1 = a\<lparr>muted := \<not> ambienceOn r\<rparr>
         in s\<lparr>audioRef := Some (if ambienceOn r \<and> started r \<and> \<not> isComplete r
                                 then play a1 else a1)\<rparr>))"

text \<open>
  One commit: \<open>p\<close> is the previous render, \<open>r\<close> the new one. An effect runs when one of its
  dependencies differs between the two; the cleanups of the effects that run come first,
  then the effects in source order.
\<close>

definition whenChanged :: "bool \<Rightarrow> (App \<Rightarrow> App) \<Rightarrow> App \<Rightarrow> App" where
  "whenChanged c f s = (if c then f s else s)"

definition runEffects :: "App \<Rightarrow> App \<Rightarrow> App \<Rightarrow> App" where
  "runEffects p r =
    (let cComplete = (isComplete p \<noteq> isComplete r);
         cStarted = (started p \<noteq> started r);
         cIndex = (phaseIndex p \<noteq> phaseIndex r);
         cKey = (map_option key (current p) \<noteq> map_option key (current r));
         cDuration = (phaseDurationMs p \<noteq> phaseDurationMs r);
         cAmbience = (ambienceOn p \<noteq> ambienceOn r)
     in whenChanged (cAmbience \<or> cStarted \<or> cComplete) (muteEffect r)
      \<circ> whenChanged (cIndex \<or> cStarted \<or> cDuration) (resetRemainingEffect r)
      \<circ> whenChanged (cStarted \<or> cDuration) (phaseTimerMount r)
      \<circ> whenChanged (cStarted \<or> cKey \<or> cComplete) (omMount r)
      \<circ> whenChanged (cIndex \<or> cStarted) (chimeEffect r)
      \<circ> whenChanged cIndex (refEffect r)
      \<circ> whenChanged (cStarted \<or> cComplete \<or> cAmbience) (keepAmbienceEffect r)
      \<circ> whenChanged cComplete (stopAudioEffect r)
      \<circ> whenChanged (cStarted \<or> cDuration) phaseTimerCleanup
      \<circ> whenChanged (cStarted \<or> cKey \<or> cComplete) omCleanup)"

text \<open>
  The state cells of two renders agree. When an effect has set a state cell the component
  renders again and a second commit follows; no effect sets a cell in the second commit,
  since only \<open>remaining\<close> differs then.
\<close>

definition sameCells :: "App \<Rightarrow> App \<Rightarrow> bool" where
  "sameCells a b \<longleftrightarrow>
     started a = started b \<and> phaseIndex a = phaseIndex b
     \<and> phaseDurationMs a = phaseDurationMs b \<and> remaining a = remaining b
     \<and> ambienceOn a = ambienceOn b"

definition commit :: "App \<Rightarrow> App \<Rightarrow> App" where
  "commit p r =
    (let s = runEffects p r r
     in if sameCells r s then s else runEffects r s s)"

subsection \<open>Event handlers\<close>

datatype Minutes = Two | Five | Ten

definition perPhase :: "Minutes \<Rightarrow> int" where
  "perPhase minutes =
    (if minutes = Two then 24000 else if minutes = Five then 60000 else 120000)"

text \<open>\<^verbatim>\<open>startWithMinutes\<close> (lines 276 to 303); the fullscreen request is presentation.\<close>

definition startWithMinutes :: "Minutes \<Rightarrow> App \<Rightarrow> App" where
  "startWithMinutes minutes s =
    (let a = (case audioRef s of None \<Rightarrow> newAudio\<lparr>loop := True\<rparr> | Some a \<Rightarrow> a)
     in s\<lparr>phaseDurationMs := perPhase minutes, phaseIndex := 0,
          remaining := perPhase minutes, started := True,
          audioRef := Some (play (a\<lparr>muted := \<not> ambienceOn s\<rparr>))\<rparr>)"

text \<open>The \<^verbatim>\<open>onClick\<close> of "Back" and of "Return to Start" (lines 491 to 496, 584 to 589).\<close>

definition returnToStart :: "App \<Rightarrow> App" where
  "returnToStart s =
    s\<lparr>started := False, phaseIndex := 0, remaining := 60000,
      audioRef := map_option pauseAndRewind (audioRef s)\<rparr>"

definition toggleAmbience :: "App \<Rightarrow> App" where
  "toggleAmbience s = s\<lparr>ambienceOn := \<not> ambienceOn s\<rparr>"

subsection \<open>The event loop\<close>

text \<open>
  The timer that fires next is the one due first, the one registered first among equals.
  Firing moves the clock to the due time, re-arms an interval (a timeout is dropped), and
  runs the callback; the phase timer's state update is followed by its commit.
\<close>

fun earliest :: "Timer list \<Rightarrow> Timer option" where
  "earliest [] = None"
| "earliest (t # ts) =
    (case earliest ts of
       None \<Rightarrow> Some t
     | Some u \<Rightarrow> if due t \<le> due u then Some t else Some u)"

definition rearm :: "Timer \<Rightarrow> Timer list \<Rightarrow> Timer list" where
  "rearm t ts =
    (case every t of
       None \<Rightarrow> filter (\<lambda>u. handle u \<noteq> handle t) ts
     | Some d \<Rightarrow> map (\<lambda>u. if handle u = handle t then u\<lparr>due := due u + d\<rparr> else u) ts)"

definition runCallback :: "Timer \<Rightarrow> App \<Rightarrow> App" where
  "runCallback t s =
    (case callback t of
       PhaseTimer \<Rightarrow> phaseTimerCb s
     | StartOmCycle \<Rightarrow> playOmForExhale s
     | PlayOm \<Rightarrow> playOm s
     | FadeTimeout \<Rightarrow> fadeTimeoutCb s
     | FadeInterval n \<Rightarrow> fadeIntervalCb (handle t) n s)"

definition fire :: "App \<Rightarrow> App" where
  "fire s =
    (case earliest (timers s) of
       None \<Rightarrow> s
     | Some t \<Rightarrow>
        runCallback t (s\<lparr>clock := max (clock s) (due t), timers := rearm t (timers s)\<rparr>))"

text \<open>
  The events of a session. The start buttons exist while the session is not started, the
  two return buttons while it is, the ambience button while it runs. \<open>Elapse t\<close> lets time
  pass up to \<open>t\<close> when no timer is due before.
\<close>

datatype Event = StartWithMinutes Minutes | ReturnToStart | ToggleAmbience | Fire | Elapse int

definition enabled :: "Event \<Rightarrow> App \<Rightarrow> bool" where
  "enabled e s =
    (case e of
       StartWithMinutes m \<Rightarrow> \<not> started s
     | ReturnToStart \<Rightarrow> started s
     | ToggleAmbience \<Rightarrow> started s \<and> \<not> isComplete s
     | Fire \<Rightarrow> timers s \<noteq> []
     | Elapse t \<Rightarrow> clock s \<le> t \<and> list_all (\<lambda>u. t \<le> due u) (timers s))"

text \<open>
  \<open>update e s\<close> is the state when the event's own code has run: the render that React
  commits first. \<open>handler e s\<close> is the state when the effects of that commit (and of the
  render they cause) have run as well.
\<close>

definition update :: "Event \<Rightarrow> App \<Rightarrow> App" where
  "update e s =
    (case e of
       StartWithMinutes m \<Rightarrow> startWithMinutes m s
     | ReturnToStart \<Rightarrow> returnToStart s
     | ToggleAmbience \<Rightarrow> toggleAmbience s
     | Fire \<Rightarrow> fire s
     | Elapse t \<Rightarrow> s\<lparr>clock := t\<rparr>)"

definition handler :: "Event \<Rightarrow> App \<Rightarrow> App" where
  "handler e s = commit s (update e s)"

definition step :: "App \<Rightarrow> Event \<Rightarrow> App" where
  "step s e = (if enabled e s then handler e s else s)"

definition run :: "Event list \<Rightarrow> App \<Rightarrow> App" where
  "run es s = foldl step s es"

text \<open>One tick of the phase timer with its commit, apart from the host's bookkeeping.\<close>

definition phaseTimerTick :: "App \<Rightarrow> App" where
  "phaseTimerTick s = commit s (phaseTimerCb s)"

text \<open>The callback of the timer that fires next, and what a test observes of a state.\<close>

definition nextCallback :: "App \<Rightarrow> Callback option" where
  "nextCallback s = map_option callback (earliest (timers s))"

definition snapshot ::
  "App \<Rightarrow> (bool \<times> int \<times> int \<times> int \<times> bool \<times> int \<times> bool) \<times> Callback option" where
  "snapshot s =
    ((started s, phaseIndex s, phaseDurationMs s, remaining s, ambienceOn s,
      phaseIndexRef s, isTransitioningRef s), nextCallback s)"

text \<open>Which of ambience, hum and chime exist and are not paused.\<close>

definition isPlaying :: "Audio option \<Rightarrow> bool" where
  "isPlaying x = (case x of None \<Rightarrow> False | Some a \<Rightarrow> \<not> paused a)"


text \<open>The 2-minute session (24000 ms per phase) after \<open>n\<close> timer firings.\<close>

definition twoMinuteSession :: "nat \<Rightarrow> App" where
  "twoMinuteSession n = run (StartWithMinutes Two # replicate n Fire) initial"

text \<open>
  The updater run once for each value of \<open>prev\<close> in the list, with no commit in between
  (React may call an updater more than once, and intervals may overlap).
\<close>

fun updaterRuns :: "int list \<Rightarrow> App \<Rightarrow> App" where
  "updaterRuns [] s = s"
| "updaterRuns (prev # ps) s = updaterRuns ps (phaseTimerCb (s\<lparr>remaining := prev\<rparr>))"

text \<open>
  Whether the hum is playing (\<open>None\<close> while the element does not exist). The cue log
  lists, for the next \<open>n\<close> timer firings, every firing other than a tick of the phase
  timer: the time of the firing, the callback, and whether the hum is playing after it.
\<close>

type_synonym Firing = "int \<times> Callback \<times> bool option"

definition humState :: "App \<Rightarrow> bool option" where
  "humState s = map_option (\<lambda>a. \<not> paused a) (omAudioRef s)"

definition logFiring :: "Timer option \<Rightarrow> Firing list \<Rightarrow> App \<Rightarrow> Firing list \<times> App" where
  "logFiring fired acc s' =
    (case fired of
       None \<Rightarrow> acc
     | Some t \<Rightarrow>
        if callback t = PhaseTimer then acc
        else (clock s', callback t, humState s') # acc,
     s')"

fun cueLogAcc :: "nat \<Rightarrow> Firing list \<times> App \<Rightarrow> Firing list" where
  "cueLogAcc 0 (acc, s) = rev acc"
| "cueLogAcc (Suc n) (acc, s) =
    cueLogAcc n (logFiring (earliest (timers s)) acc (step s Fire))"

definition cueLog :: "nat \<Rightarrow> App \<Rightarrow> Firing list" where
  "cueLog n s = cueLogAcc n ([], s)"

text \<open>
  The hum schedule in the words of the specification, for a per-phase duration \<open>D\<close>:
  in each phase but the first the hum fires 4 s after the phase start and then every
  12 s while the phase lasts; a firing at \<open>t\<close> starts the hum, the fade starts at
  \<open>t + 7000\<close> and takes 20 steps of 50 ms, the last one stopping the hum.
\<close>

definition cue :: "int \<Rightarrow> Callback \<Rightarrow> Firing list" where
  "cue t cb =
    (t, cb, Some True)
    # (t + 7000, FadeTimeout, Some True)
    # map (\<lambda>k. (t + 7000 + 50 * (int k + 1), FadeInterval k, Some (k + 1 < 20)))
          [0..<20]"

definition humScheduleSpec :: "int \<Rightarrow> Firing list" where
  "humScheduleSpec D =
    concat (map (\<lambda>i. concat (map (\<lambda>j. cue (int i * D + 4000 + 12000 * int j)
                                           (if j = 0 then StartOmCycle else PlayOm))
                                 [0..<nat (D div 12000)]))
                [1..<length PHASES])"

text \<open>
  The timer firings of an uninterrupted session: the ticks of five phases and, in four
  phases, 22 firings for each hum (the hum, the fade timeout, 20 fade steps).
\<close>

definition sessionFirings :: "int \<Rightarrow> nat" where
  "sessionFirings D = nat (5 * (D div 1000) + 4 * (D div 12000) * 22)"

subsection \<open>Invariants\<close>

text \<open>
  The refs agree with the state: what the effect of lines 176 to 179 establishes after
  every change of the phase index.
\<close>

definition synced :: "App \<Rightarrow> bool" where
  "synced s \<longleftrightarrow> phaseIndexRef s = phaseIndex s \<and> \<not> isTransitioningRef s"

definition inRange :: "App \<Rightarrow> bool" where
  "inRange s \<longleftrightarrow>
     0 \<le> remaining s \<and> remaining s \<le> phaseDurationMs s
     \<and> 0 \<le> phaseIndex s \<and> phaseIndex s < int (length PHASES)"

text \<open>The state cells and the two refs that the phase timer reads and writes.\<close>

definition core :: "App \<Rightarrow> bool \<times> int \<times> int \<times> int \<times> bool \<times> int \<times> bool" where
  "core s = (started s, phaseIndex s, phaseDurationMs s, remaining s, ambienceOn s,
     phaseIndexRef s, isTransitioningRef s)"

text \<open>The invariant of the settled states (those in which all effects have run).\<close>

definition settled :: "App \<Rightarrow> bool" where
  "settled s \<longleftrightarrow>
     synced s \<and> 0 \<le> phaseIndex s \<and> phaseIndex s < int (length PHASES)
     \<and> 0 < phaseDurationMs s
     \<and> (started s \<longrightarrow> 0 \<le> remaining s \<and> remaining s \<le> phaseDurationMs s)"

text \<open>
  Ownership of the cue timers: a pending phase timer is the one whose id the mounted phase
  timer effect holds; a pending \<^verbatim>\<open>startOmCycle\<close> timeout or \<^verbatim>\<open>omInterval\<close> interval is the one
  the mounted hum effect holds. These are the handles the two cleanups clear.
\<close>

definition isHum :: "Timer \<Rightarrow> bool" where
  "isHum t \<longleftrightarrow> callback t = StartOmCycle \<or> callback t = PlayOm"

definition isPhase :: "Timer \<Rightarrow> bool" where
  "isPhase t \<longleftrightarrow> callback t = PhaseTimer"

definition isFade :: "Timer \<Rightarrow> bool" where
  "isFade t \<longleftrightarrow> \<not> isHum t \<and> \<not> isPhase t"

definition ownedBy :: "(nat \<times> nat option) option \<Rightarrow> Timer \<Rightarrow> bool" where
  "ownedBy oe t =
    (case callback t of
       StartOmCycle \<Rightarrow> every t = None \<and> oe = Some (handle t, None)
     | PlayOm \<Rightarrow> map_option snd oe = Some (Some (handle t))
     | _ \<Rightarrow> True)"

definition ownedHum :: "App \<Rightarrow> bool" where
  "ownedHum s = list_all (ownedBy (omEffect s)) (timers s)"

definition ownedPhase :: "App \<Rightarrow> bool" where
  "ownedPhase s =
     list_all (\<lambda>t. \<not> isPhase t \<or> phaseTimerEffect s = Some (handle t)) (timers s)"

definition owned :: "App \<Rightarrow> bool" where
  "owned s \<longleftrightarrow> ownedHum s \<and> ownedPhase s"

text \<open>
  No pending timer is overdue, and intervals have non-negative periods: then every
  callback runs exactly at the time it is due.
\<close>

definition punctual :: "App \<Rightarrow> bool" where
  "punctual s =
     list_all (\<lambda>t. clock s \<le> due t \<and> (every t = None \<or> 0 \<le> the (every t))) (timers s)"

definition stopped :: "Audio option \<Rightarrow> bool" where
  "stopped x = (case x of None \<Rightarrow> True | Some a \<Rightarrow> paused a \<and> currentTime a = 0)"


subsection \<open>What each step does to the state cells and the refs\<close>

lemma length_PHASES [simp]: "length PHASES = 5"
  by (simp add: PHASES_def)

lemma whenChanged_sel [simp]:
  "started (whenChanged c f s) = (if c then started (f s) else started s)"
  "phaseIndex (whenChanged c f s) = (if c then phaseIndex (f s) else phaseIndex s)"
  "phaseDurationMs (whenChanged c f s) = (if c then phaseDurationMs (f s) else phaseDurationMs s)"
  "remaining (whenChanged c f s) = (if c then remaining (f s) else remaining s)"
  "ambienceOn (whenChanged c f s) = (if c then ambienceOn (f s) else ambienceOn s)"
  "phaseIndexRef (whenChanged c f s) = (if c then phaseIndexRef (f s) else phaseIndexRef s)"
  "isTransitioningRef (whenChanged c f s) = (if c then isTransitioningRef (f s) else isTransitioningRef s)"
  by (simp_all add: whenChanged_def)

lemma setTimer_cells [simp]:
  "started (setTimer cb d rep s) = started s"
  "phaseIndex (setTimer cb d rep s) = phaseIndex s"
  "phaseDurationMs (setTimer cb d rep s) = phaseDurationMs s"
  "remaining (setTimer cb d rep s) = remaining s"
  "ambienceOn (setTimer cb d rep s) = ambienceOn s"
  "phaseIndexRef (setTimer cb d rep s) = phaseIndexRef s"
  "isTransitioningRef (setTimer cb d rep s) = isTransitioningRef s"
  by (simp_all add: setTimer_def)

lemma clearTimer_cells [simp]:
  "started (clearTimer h s) = started s"
  "phaseIndex (clearTimer h s) = phaseIndex s"
  "phaseDurationMs (clearTimer h s) = phaseDurationMs s"
  "remaining (clearTimer h s) = remaining s"
  "ambienceOn (clearTimer h s) = ambienceOn s"
  "phaseIndexRef (clearTimer h s) = phaseIndexRef s"
  "isTransitioningRef (clearTimer h s) = isTransitioningRef s"
  by (simp_all add: clearTimer_def)

lemma clearTimerOpt_cells [simp]:
  "started (clearTimerOpt h s) = started s"
  "phaseIndex (clearTimerOpt h s) = phaseIndex s"
  "phaseDurationMs (clearTimerOpt h s) = phaseDurationMs s"
  "remaining (clearTimerOpt h s) = remaining s"
  "ambienceOn (clearTimerOpt h s) = ambienceOn s"
  "phaseIndexRef (clearTimerOpt h s) = phaseIndexRef s"
  "isTransitioningRef (clearTimerOpt h s) = isTransitioningRef s"
  by (simp_all add: clearTimerOpt_def split: option.splits)

lemma stopAudioEffect_cells [simp]:
  "started (stopAudioEffect r s) = started s"
  "phaseIndex (stopAudioEffect r s) = phaseIndex s"
  "phaseDurationMs (stopAudioEffect r s) = phaseDurationMs s"
  "remaining (stopAudioEffect r s) = remaining s"
  "ambienceOn (stopAudioEffect r s) = ambienceOn s"
  "phaseIndexRef (stopAudioEffect r s) = phaseIndexRef s"
  "isTransitioningRef (stopAudioEffect r s) = isTransitioningRef s"
  by (simp_all add: stopAudioEffect_def)

lemma keepAmbienceEffect_cells [simp]:
  "started (keepAmbienceEffect r s) = started s"
  "phaseIndex (keepAmbienceEffect r s) = phaseIndex s"
  "phaseDurationMs (keepAmbienceEffect r s) = phaseDurationMs s"
  "remaining (keepAmbienceEffect r s) = remaining s"
  "ambienceOn (keepAmbienceEffect r s) = ambienceOn s"
  "phaseIndexRef (keepAmbienceEffect r s) = phaseIndexRef s"
  "isTransitioningRef (keepAmbienceEffect r s) = isTransitioningRef s"
  by (simp_all add: keepAmbienceEffect_def split: option.splits)

lemma refEffect_cells [simp]:
  "started (refEffect r s) = started s"
  "phaseIndex (refEffect r s) = phaseIndex s"
  "phaseDurationMs (refEffect r s) = phaseDurationMs s"
  "remaining (refEffect r s) = remaining s"
  "ambienceOn (refEffect r s) = ambienceOn s"
  "phaseIndexRef (refEffect r s) = phaseIndex r"
  "isTransitioningRef (refEffect r s) = False"
  by (simp_all add: refEffect_def)

lemma chimeEffect_cells [simp]:
  "started (chimeEffect r s) = started s"
  "phaseIndex (chimeEffect r s) = phaseIndex s"
  "phaseDurationMs (chimeEffect r s) = phaseDurationMs s"
  "remaining (chimeEffect r s) = remaining s"
  "ambienceOn (chimeEffect r s) = ambienceOn s"
  "phaseIndexRef (chimeEffect r s) = phaseIndexRef s"
  "isTransitioningRef (chimeEffect r s) = isTransitioningRef s"
  by (simp_all add: chimeEffect_def Let_def)

lemma omMount_cells [simp]:
  "started (omMount r s) = started s"
  "phaseIndex (omMount r s) = phaseIndex s"
  "phaseDurationMs (omMount r s) = phaseDurationMs s"
  "remaining (omMount r s) = remaining s"
  "ambienceOn (omMount r s) = ambienceOn s"
  "phaseIndexRef (omMount r s) = phaseIndexRef s"
  "isTransitioningRef (omMount r s) = isTransitioningRef s"
  by (simp_all add: omMount_def)

lemma omCleanup_cells [simp]:
  "started (omCleanup s) = started s"
  "phaseIndex (omCleanup s) = phaseIndex s"
  "phaseDurationMs (omCleanup s) = phaseDurationMs s"
  "remaining (omCleanup s) = remaining s"
  "ambienceOn (omCleanup s) = ambienceOn s"
  "phaseIndexRef (omCleanup s) = phaseIndexRef s"
  "isTransitioningRef (omCleanup s) = isTransitioningRef s"
  by (simp_all add: omCleanup_def split: option.splits)

lemma phaseTimerMount_cells [simp]:
  "started (phaseTimerMount r s) = started s"
  "phaseIndex (phaseTimerMount r s) = phaseIndex s"
  "phaseDurationMs (phaseTimerMount r s) = phaseDurationMs s"
  "remaining (phaseTimerMount r s) = remaining s"
  "ambienceOn (phaseTimerMount r s) = ambienceOn s"
  "phaseIndexRef (phaseTimerMount r s) = phaseIndexRef s"
  "isTransitioningRef (phaseTimerMount r s) = isTransitioningRef s"
  by (simp_all add: phaseTimerMount_def)

lemma phaseTimerCleanup_cells [simp]:
  "started (phaseTimerCleanup s) = started s"
  "phaseIndex (phaseTimerCleanup s) = phaseIndex s"
  "phaseDurationMs (phaseTimerCleanup s) = phaseDurationMs s"
  "remaining (phaseTimerCleanup s) = remaining s"
  "ambienceOn (phaseTimerCleanup s) = ambienceOn s"
  "phaseIndexRef (phaseTimerCleanup s) = phaseIndexRef s"
  "isTransitioningRef (phaseTimerCleanup s) = isTransitioningRef s"
  by (simp_all add: phaseTimerCleanup_def)

lemma resetRemainingEffect_cells [simp]:
  "started (resetRemainingEffect r s) = started s"
  "phaseIndex (resetRemainingEffect r s) = phaseIndex s"
  "phaseDurationMs (resetRemainingEffect r s) = phaseDurationMs s"
  "remaining (resetRemainingEffect r s) = (if started r then phaseDurationMs r else remaining s)"
  "ambienceOn (resetRemainingEffect r s) = ambienceOn s"
  "phaseIndexRef (resetRemainingEffect r s) = phaseIndexRef s"
  "isTransitioningRef (resetRemainingEffect r s) = isTransitioningRef s"
  by (simp_all add: resetRemainingEffect_def)

lemma muteEffect_cells [simp]:
  "started (muteEffect r s) = started s"
  "phaseIndex (muteEffect r s) = phaseIndex s"
  "phaseDurationMs (muteEffect r s) = phaseDurationMs s"
  "remaining (muteEffect r s) = remaining s"
  "ambienceOn (muteEffect r s) = ambienceOn s"
  "phaseIndexRef (muteEffect r s) = phaseIndexRef s"
  "isTransitioningRef (muteEffect r s) = isTransitioningRef s"
  by (simp_all add: muteEffect_def Let_def split: option.splits)

lemma runEffects_cells:
  "started (runEffects p r s) = started s"
  "phaseIndex (runEffects p r s) = phaseIndex s"
  "phaseDurationMs (runEffects p r s) = phaseDurationMs s"
  "remaining (runEffects p r s) =
     (if (phaseIndex p \<noteq> phaseIndex r \<or> started p \<noteq> started r
          \<or> phaseDurationMs p \<noteq> phaseDurationMs r) \<and> started r
      then phaseDurationMs r else remaining s)"
  "ambienceOn (runEffects p r s) = ambienceOn s"
  "phaseIndexRef (runEffects p r s) =
     (if phaseIndex p \<noteq> phaseIndex r then phaseIndex r else phaseIndexRef s)"
  "isTransitioningRef (runEffects p r s) =
     (if phaseIndex p \<noteq> phaseIndex r then False else isTransitioningRef s)"
  by (simp_all add: runEffects_def Let_def)

lemma commit_cells:
  "started (commit p r) = started r"
  "phaseIndex (commit p r) = phaseIndex r"
  "phaseDurationMs (commit p r) = phaseDurationMs r"
  "remaining (commit p r) =
     (if (phaseIndex p \<noteq> phaseIndex r \<or> started p \<noteq> started r
          \<or> phaseDurationMs p \<noteq> phaseDurationMs r) \<and> started r
      then phaseDurationMs r else remaining r)"
  "ambienceOn (commit p r) = ambienceOn r"
  "phaseIndexRef (commit p r) =
     (if phaseIndex p \<noteq> phaseIndex r then phaseIndex r else phaseIndexRef r)"
  "isTransitioningRef (commit p r) =
     (if phaseIndex p \<noteq> phaseIndex r then False else isTransitioningRef r)"
  by (simp_all add: commit_def Let_def runEffects_cells sameCells_def)


lemma phaseTimerCb_cells:
  "started (phaseTimerCb s) = started s"
  "phaseDurationMs (phaseTimerCb s) = phaseDurationMs s"
  "ambienceOn (phaseTimerCb s) = ambienceOn s"
  "phaseIndexRef (phaseTimerCb s) = phaseIndexRef s"
  "phaseIndex (phaseTimerCb s) =
     (if remaining s \<le> 1000 \<and> \<not> isTransitioningRef s \<and> phaseIndexRef s < 4
      then phaseIndex s + 1 else phaseIndex s)"
  "remaining (phaseTimerCb s) =
     (if remaining s \<le> 1000 \<and> \<not> isTransitioningRef s
      then max 0 (remaining s - 1000) else remaining s - 1000)"
  "isTransitioningRef (phaseTimerCb s) =
     (isTransitioningRef s \<or> (remaining s \<le> 1000 \<and> phaseIndexRef s < 4))"
  by (auto simp add: phaseTimerCb_def Let_def)

lemma phaseTimerTick_cells:
  assumes "synced s"
  shows "started (phaseTimerTick s) = started s"
    and "phaseDurationMs (phaseTimerTick s) = phaseDurationMs s"
    and "ambienceOn (phaseTimerTick s) = ambienceOn s"
    and "phaseIndex (phaseTimerTick s) =
          (if remaining s \<le> 1000 \<and> phaseIndex s < 4 then phaseIndex s + 1 else phaseIndex s)"
    and "remaining (phaseTimerTick s) =
          (if remaining s \<le> 1000
           then (if phaseIndex s < 4 \<and> started s then phaseDurationMs s else 0)
           else remaining s - 1000)"
    and "synced (phaseTimerTick s)"
  using assms
  by (auto simp add: phaseTimerTick_def commit_cells phaseTimerCb_cells synced_def)

lemma ticks_remaining:
  assumes "synced s" and "started s"
    and "remaining s = phaseDurationMs s" and "0 < phaseDurationMs s"
    and "\<forall>j\<le>k. phaseIndex ((phaseTimerTick ^^ j) s) = phaseIndex s"
  shows "synced ((phaseTimerTick ^^ k) s) \<and> started ((phaseTimerTick ^^ k) s)
    \<and> phaseDurationMs ((phaseTimerTick ^^ k) s) = phaseDurationMs s
    \<and> remaining ((phaseTimerTick ^^ k) s) = max 0 (phaseDurationMs s - int k * 1000)"
  using assms(5)
proof (induction k)
  case 0
  then show ?case using assms(1-4) by simp
next
  case (Suc k)
  let ?t = "(phaseTimerTick ^^ k) s"
  have ih: "synced ?t" "started ?t" "phaseDurationMs ?t = phaseDurationMs s"
    "remaining ?t = max 0 (phaseDurationMs s - int k * 1000)"
    using Suc by simp_all
  have same: "phaseIndex ?t = phaseIndex s" "phaseIndex (phaseTimerTick ?t) = phaseIndex s"
    using Suc.prems [rule_format, of k] Suc.prems [rule_format, of "Suc k"] by simp_all
  have nadv: "\<not> (remaining ?t \<le> 1000 \<and> phaseIndex ?t < 4)"
    using same phaseTimerTick_cells(4) [OF ih(1)] by (auto split: if_splits)
  have rem: "remaining (phaseTimerTick ?t) = max 0 (phaseDurationMs s - int (Suc k) * 1000)"
    using nadv ih(2,3,4) phaseTimerTick_cells(5) [OF ih(1)]
    by (auto simp add: max_def split: if_splits)
  show ?case
    using rem ih phaseTimerTick_cells(1,2,6) [OF ih(1)] by simp
qed

subsection \<open>Properties of the breathing prompt\<close>

lemma js_rem_nonneg_12:
  assumes "0 \<le> d"
  shows "js_rem (of_int d / 1000) 12 = of_int (d mod 12000) / 1000"
proof -
  have q: "(of_int d / 1000 / 12 :: rat) = of_int d / of_int 12000" by simp
  have fl: "\<lfloor>(of_int d / 1000 / 12 :: rat)\<rfloor> = d div 12000"
    unfolding q by (simp only: floor_divide_of_int_eq)
  have nn: "(0::rat) \<le> of_int d / 1000 / 12" using assms by simp
  have "js_rem (of_int d / 1000) 12 = of_int d / 1000 - 12 * of_int (d div 12000)"
    using nn fl by (simp add: js_rem_def js_trunc_def)
  also have "\<dots> = (of_int d - 12000 * of_int (d div 12000)) / 1000"
    by (simp add: field_simps)
  also have "of_int d - 12000 * of_int (d div 12000) = (of_int (d mod 12000) :: rat)"
    by (simp add: minus_mult_div_eq_mod [symmetric] mult.commute)
  finally show ?thesis .
qed

lemma isIn_elapsed_iff:
  assumes "cycleTime \<le> now"
  shows "isIn (elapsedSeconds now cycleTime) \<longleftrightarrow> (now - cycleTime) mod 12000 < 4000"
proof -
  have "elapsedSeconds now cycleTime = of_int ((now - cycleTime) mod 12000) / 1000"
    unfolding elapsedSeconds_def using assms by (intro js_rem_nonneg_12) simp
  moreover have "(of_int m / 1000 < (4::rat)) \<longleftrightarrow> m < 4000" for m :: int
    by (simp add: pos_divide_less_eq)
  ultimately show ?thesis
    by (simp only: isIn_def)
qed

lemma text_of_elapsed:
  assumes "cycleTime \<le> now"
  shows "text_of (elapsedSeconds now cycleTime) =
    (if (now - cycleTime) mod 12000 < 4000 then ''breathe in...'' else ''breathe out...'')"
  using isIn_elapsed_iff [OF assms] by (simp only: text_of_def)

text \<open>
  C6. With \<open>e\<close> the time since the cycle anchor taken modulo the 12 second cycle,
  \<open>e < 4\<close> is the inhale sub-state with the text "breathe in..." and \<open>e \<ge> 4\<close> is the
  exhale sub-state with the text "breathe out..."; in milliseconds, the prompt is the inhale
  text exactly when the elapsed time modulo \<open>CYCLE_MS\<close> is below \<open>INHALE_MS\<close>. At
  anchor \<open>t0\<close> the prompt is inhale at \<open>t0 + 3999\<close> and exhale at \<open>t0 + 5000\<close>.
\<close>

theorem breath_substate:
  assumes "cycleTime \<le> now" and "cycleTime \<noteq> 0"
  shows "(isIn e \<longleftrightarrow> e < 4)
    \<and> text_of e = (if e < 4 then ''breathe in...'' else ''breathe out...'')
    \<and> BreathPrompt now (Some cycleTime) =
        (if (now - cycleTime) mod CYCLE_MS < INHALE_MS
         then ''breathe in...'' else ''breathe out...'')
    \<and> isIn (elapsedSeconds (cycleTime + 3999) cycleTime)
    \<and> BreathPrompt (cycleTime + 3999) (Some cycleTime) = ''breathe in...''
    \<and> \<not> isIn (elapsedSeconds (cycleTime + 5000) cycleTime)
    \<and> BreathPrompt (cycleTime + 5000) (Some cycleTime) = ''breathe out...''"
proof -
  have a: "text_of (elapsedSeconds (cycleTime + 3999) cycleTime) = ''breathe in...''"
    by (subst text_of_elapsed) simp_all
  have b: "text_of (elapsedSeconds (cycleTime + 5000) cycleTime) = ''breathe out...''"
    by (subst text_of_elapsed) simp_all
  have c: "isIn (elapsedSeconds (cycleTime + 3999) cycleTime)"
    by (subst isIn_elapsed_iff) simp_all
  have d: "\<not> isIn (elapsedSeconds (cycleTime + 5000) cycleTime)"
    by (subst isIn_elapsed_iff) simp_all
  have e: "BreathPrompt now (Some cycleTime) =
      (if (now - cycleTime) mod CYCLE_MS < INHALE_MS
       then ''breathe in...'' else ''breathe out...'')"
    using assms text_of_elapsed [OF assms(1)]
    by (simp add: BreathPrompt_def CYCLE_MS_def INHALE_MS_def EXHALE_MS_def)
  show ?thesis
    using a b c d e assms(2) by (simp add: BreathPrompt_def isIn_def text_of_def)
qed

theorem breath_substate_witness:
  "(1700000000000::int) \<le> 1700000003000 \<and> (1700000000000::int) \<noteq> 0
   \<and> text_of 2 = ''breathe in...''
   \<and> BreathPrompt 1700000003000 (Some 1700000000000) = ''breathe in...''
   \<and> BreathPrompt 1700000005000 (Some 1700000000000) = ''breathe out...''"
  using breath_substate [of 1700000000000 1700000003000 2]
  by (simp add: CYCLE_MS_def INHALE_MS_def EXHALE_MS_def)

text \<open>
  C7 at a concrete input. The claim has the indicator fade: opacity 0.3 at 3.5 s into the
  inhale. The element is rendered with style opacity 1 there, as at every other time,
  with or without a cycle anchor: the envelope of lines 90 to 102 is computed and not
  used.
\<close>

theorem prompt_opacity_constant:
  "styleOpacity (BreathPromptSpan (t0 + 3500) (Some t0)) = 1
   \<and> styleOpacity (BreathPromptSpan (t0 + 3500) (Some t0)) \<noteq> 6 / 10 * (1 - 5 / 10)
   \<and> styleOpacity (BreathPromptSpan now cycleTime) = 1
   \<and> spanText (BreathPromptSpan now cycleTime) = BreathPrompt now cycleTime"
  by (simp add: BreathPromptSpan_def BreathPrompt_def split: option.splits)

subsection \<open>The session clock\<close>

lemma startWithMinutes_cells:
  "started (startWithMinutes m s) = True"
  "phaseIndex (startWithMinutes m s) = 0"
  "phaseDurationMs (startWithMinutes m s) = perPhase m"
  "remaining (startWithMinutes m s) = perPhase m"
  "ambienceOn (startWithMinutes m s) = ambienceOn s"
  "phaseIndexRef (startWithMinutes m s) = phaseIndexRef s"
  "isTransitioningRef (startWithMinutes m s) = isTransitioningRef s"
  by (simp_all add: startWithMinutes_def Let_def)

lemma perPhase_pos: "0 < perPhase m"
  by (simp add: perPhase_def)

lemma tick_mid_phase:
  assumes "synced s" and "1000 < remaining s"
  shows "synced (phaseTimerTick s) \<and> started (phaseTimerTick s) = started s
    \<and> phaseIndex (phaseTimerTick s) = phaseIndex s
    \<and> phaseDurationMs (phaseTimerTick s) = phaseDurationMs s
    \<and> remaining (phaseTimerTick s) = remaining s - 1000"
  using assms(2) phaseTimerTick_cells [OF assms(1)] by simp

text \<open>
  C1. Starting a run sets the phase index to 0 and \<open>remaining\<close> to the per-phase
  duration. For every per-phase duration \<open>D > 0\<close>: from a state with
  \<open>remaining = D\<close>, after \<open>k\<close> ticks of the phase timer during which the phase index
  has not changed, \<open>remaining = max 0 (D - k * 1000)\<close>.
\<close>

theorem session_clock_ticks:
  assumes "synced s0" and "\<not> started s0"
    and "synced s" and "started s"
    and "0 < phaseDurationMs s" and "remaining s = phaseDurationMs s"
    and "\<forall>j\<le>k. phaseIndex ((phaseTimerTick ^^ j) s) = phaseIndex s"
  shows "started (handler (StartWithMinutes m) s0)
    \<and> phaseIndex (handler (StartWithMinutes m) s0) = 0
    \<and> phaseDurationMs (handler (StartWithMinutes m) s0) = perPhase m
    \<and> remaining (handler (StartWithMinutes m) s0) = perPhase m
    \<and> synced (handler (StartWithMinutes m) s0)
    \<and> remaining ((phaseTimerTick ^^ k) s) = max 0 (phaseDurationMs s - int k * 1000)"
proof -
  have "remaining ((phaseTimerTick ^^ k) s) = max 0 (phaseDurationMs s - int k * 1000)"
    using ticks_remaining [OF assms(3,4,6,5,7)] by simp
  moreover have "synced (handler (StartWithMinutes m) s0)"
    using assms(1)
    by (auto simp add: handler_def update_def commit_cells startWithMinutes_cells synced_def)
  ultimately show ?thesis
    by (simp add: handler_def update_def commit_cells startWithMinutes_cells)
qed

theorem session_clock_ticks_witness:
  "synced initial \<and> \<not> started initial
   \<and> remaining (handler (StartWithMinutes Two) initial) = 24000
   \<and> remaining ((phaseTimerTick ^^ 3) (handler (StartWithMinutes Two) initial)) = 21000"
proof -
  let ?s = "handler (StartWithMinutes Two) initial"
  let ?t1 = "phaseTimerTick ?s"
  let ?t2 = "phaseTimerTick ?t1"
  let ?t3 = "phaseTimerTick ?t2"
  have a: "synced initial" "\<not> started initial"
    by (simp_all add: synced_def initial_def)
  have b: "synced ?s" "started ?s" "0 < phaseDurationMs ?s" "remaining ?s = phaseDurationMs ?s"
    "phaseDurationMs ?s = 24000"
    by code_simp+
  have t1: "synced ?t1" "phaseIndex ?t1 = phaseIndex ?s" "remaining ?t1 = 23000"
    using tick_mid_phase [OF b(1)] b(4,5) by simp_all
  have t2: "synced ?t2" "phaseIndex ?t2 = phaseIndex ?s" "remaining ?t2 = 22000"
    using tick_mid_phase [OF t1(1)] t1(2,3) by simp_all
  have t3: "phaseIndex ?t3 = phaseIndex ?s"
    using tick_mid_phase [OF t2(1)] t2(2,3) by simp_all
  have e: "\<forall>j\<le>3. phaseIndex ((phaseTimerTick ^^ j) ?s) = phaseIndex ?s"
  proof (intro allI impI)
    fix j :: nat
    assume "j \<le> 3"
    then have "j = 0 \<or> j = 1 \<or> j = 2 \<or> j = 3" by arith
    then show "phaseIndex ((phaseTimerTick ^^ j) ?s) = phaseIndex ?s"
      using t1(2) t2(2) t3 by (elim disjE) (simp_all add: numeral_3_eq_3 numeral_2_eq_2)
  qed
  show ?thesis
    using session_clock_ticks [OF a b(1,2,3,4) e, of Two] a b(5)
    by (simp add: perPhase_def)
qed

subsection \<open>Events and the state cells\<close>

lemma core_eq_iff:
  "core a = core b \<longleftrightarrow>
     started a = started b \<and> phaseIndex a = phaseIndex b
     \<and> phaseDurationMs a = phaseDurationMs b \<and> remaining a = remaining b
     \<and> ambienceOn a = ambienceOn b \<and> phaseIndexRef a = phaseIndexRef b
     \<and> isTransitioningRef a = isTransitioningRef b"
  by (simp add: core_def)

lemma settled_cong: "core a = core b \<Longrightarrow> settled a = settled b"
  by (simp add: core_eq_iff settled_def synced_def)

lemma playOm_core: "core (playOm s) = core s"
  by (simp add: core_eq_iff playOm_def Let_def)

lemma playOmForExhale_core: "core (playOmForExhale s) = core s"
  using playOm_core [of s] by (simp add: core_eq_iff playOmForExhale_def Let_def)

lemma fadeTimeoutCb_core: "core (fadeTimeoutCb s) = core s"
  by (simp add: core_eq_iff fadeTimeoutCb_def split: option.splits)

lemma fadeIntervalCb_core: "core (fadeIntervalCb h n s) = core s"
  by (simp add: core_eq_iff fadeIntervalCb_def Let_def split: option.splits)

lemma phaseTimerCb_cong: "core a = core b \<Longrightarrow> core (phaseTimerCb a) = core (phaseTimerCb b)"
  by (simp add: core_eq_iff phaseTimerCb_cells)

lemma commit_core_cong:
  "core p = core p' \<Longrightarrow> core r = core r' \<Longrightarrow> core (commit p r) = core (commit p' r')"
  by (simp add: core_eq_iff commit_cells)

lemma commit_core_same: "core r = core p \<Longrightarrow> core (commit p r) = core p"
  by (simp add: core_eq_iff commit_cells)

text \<open>
  A firing either leaves the cells and refs alone (a hum callback, or no timer) or is a
  tick of the phase timer.
\<close>

lemma handler_Fire_core:
  "core (handler Fire s) = core s \<or> core (handler Fire s) = core (phaseTimerTick s)"
proof (cases "earliest (timers s)")
  case None
  then show ?thesis
    by (simp add: handler_def update_def fire_def commit_core_same)
next
  case (Some t)
  let ?s = "s\<lparr>clock := max (clock s) (due t), timers := rearm t (timers s)\<rparr>"
  have same: "core ?s = core s" by (simp add: core_eq_iff)
  have f: "fire s = runCallback t ?s" using Some by (simp add: fire_def)
  show ?thesis
  proof (cases "callback t")
    case PhaseTimer
    then have "handler Fire s = commit s (phaseTimerCb ?s)"
      using f by (simp add: handler_def update_def runCallback_def)
    moreover have "core (commit s (phaseTimerCb ?s)) = core (commit s (phaseTimerCb s))"
      by (rule commit_core_cong [OF refl phaseTimerCb_cong [OF same]])
    ultimately show ?thesis by (simp add: phaseTimerTick_def)
  next
    case StartOmCycle
    then have "core (fire s) = core s"
      using f same by (simp add: runCallback_def playOmForExhale_core)
    then show ?thesis by (simp add: handler_def update_def commit_core_same)
  next
    case PlayOm
    then have "core (fire s) = core s"
      using f same by (simp add: runCallback_def playOm_core)
    then show ?thesis by (simp add: handler_def update_def commit_core_same)
  next
    case FadeTimeout
    then have "core (fire s) = core s"
      using f same by (simp add: runCallback_def fadeTimeoutCb_core)
    then show ?thesis by (simp add: handler_def update_def commit_core_same)
  next
    case (FadeInterval n)
    then have "core (fire s) = core s"
      using f same by (simp add: runCallback_def fadeIntervalCb_core)
    then show ?thesis by (simp add: handler_def update_def commit_core_same)
  qed
qed

lemma fire_core:
  "core (fire s) = core s \<or> core (fire s) = core (phaseTimerCb s)"
proof (cases "earliest (timers s)")
  case None
  then show ?thesis by (simp add: fire_def)
next
  case (Some t)
  let ?s = "s\<lparr>clock := max (clock s) (due t), timers := rearm t (timers s)\<rparr>"
  have same: "core ?s = core s" by (simp add: core_eq_iff)
  have f: "fire s = runCallback t ?s" using Some by (simp add: fire_def)
  show ?thesis
    using f same phaseTimerCb_cong [OF same]
    by (cases "callback t")
      (simp_all add: runCallback_def playOmForExhale_core playOm_core fadeTimeoutCb_core
        fadeIntervalCb_core)
qed

lemma settled_tick: "settled s \<Longrightarrow> settled (phaseTimerTick s)"
  using phaseTimerTick_cells [of s]
  by (auto simp add: settled_def)

lemma settled_handler: "settled s \<Longrightarrow> settled (handler e s)"
proof (cases e)
  case (StartWithMinutes m)
  assume "settled s"
  then show ?thesis
    using StartWithMinutes perPhase_pos [of m]
    by (auto simp add: settled_def synced_def handler_def update_def commit_cells
        startWithMinutes_cells)
next
  case ReturnToStart
  assume "settled s"
  then show ?thesis
    using ReturnToStart
    by (auto simp add: settled_def synced_def handler_def update_def commit_cells
        returnToStart_def)
next
  case ToggleAmbience
  assume "settled s"
  then show ?thesis
    using ToggleAmbience
    by (auto simp add: settled_def synced_def handler_def update_def commit_cells
        toggleAmbience_def)
next
  case Fire
  assume a: "settled s"
  from handler_Fire_core [of s] show ?thesis
  proof
    assume "core (handler Fire s) = core s"
    then show ?thesis using a Fire settled_cong [of "handler Fire s" s] by simp
  next
    assume "core (handler Fire s) = core (phaseTimerTick s)"
    then show ?thesis
      using settled_tick [OF a] Fire settled_cong [of "handler Fire s" "phaseTimerTick s"]
      by simp
  qed
next
  case (Elapse t)
  assume "settled s"
  then show ?thesis
    using Elapse
    by (auto simp add: settled_def synced_def handler_def update_def commit_cells)
qed

lemma settled_run: "settled s \<Longrightarrow> settled (run es s)"
proof (induction es arbitrary: s)
  case Nil
  then show ?case by (simp add: run_def)
next
  case (Cons e es)
  have "settled (step s e)"
    using Cons.prems settled_handler [of s e] by (simp add: step_def)
  then show ?case
    using Cons.IH [of "step s e"] by (simp add: run_def)
qed

lemma settled_initial: "settled initial"
  by (simp add: settled_def synced_def initial_def)

lemma settled_tick_render:
  assumes "settled s" and "started s"
  shows "inRange (phaseTimerCb s)"
  using assms by (auto simp add: settled_def synced_def inRange_def phaseTimerCb_cells)

lemma inRange_cong: "core a = core b \<Longrightarrow> inRange a = inRange b"
  by (simp add: core_eq_iff inRange_def)

lemma settled_update:
  assumes "settled s" and "started (update e s)"
  shows "inRange (update e s)"
proof (cases e)
  case (StartWithMinutes m)
  then show ?thesis
    using perPhase_pos [of m]
    by (simp add: inRange_def update_def startWithMinutes_cells)
next
  case ReturnToStart
  then show ?thesis using assms(2) by (simp add: update_def returnToStart_def)
next
  case ToggleAmbience
  then show ?thesis
    using assms by (auto simp add: update_def toggleAmbience_def settled_def inRange_def)
next
  case Fire
  from fire_core [of s] show ?thesis
  proof
    assume c: "core (fire s) = core s"
    then have "started s" using assms(2) Fire by (simp add: core_eq_iff update_def)
    then have "inRange s" using assms(1) by (simp add: settled_def inRange_def)
    then show ?thesis using inRange_cong [OF c] Fire by (simp add: update_def)
  next
    assume c: "core (fire s) = core (phaseTimerCb s)"
    then have "started s"
      using assms(2) Fire by (simp add: core_eq_iff update_def phaseTimerCb_cells)
    then have "inRange (phaseTimerCb s)" using assms(1) by (rule settled_tick_render [rotated])
    then show ?thesis using inRange_cong [OF c] Fire by (simp add: update_def)
  qed
next
  case (Elapse t)
  then show ?thesis
    using assms by (auto simp add: update_def settled_def inRange_def)
qed

text \<open>
  C3. In every state reachable from the initial state by any sequence of events, and in
  the render that any further event commits before its effects run, a started session
  has \<open>0 \<le> remaining \<le> phaseDurationMs\<close> and \<open>0 \<le> phaseIndex < length PHASES\<close>, where
  \<open>length PHASES = 5\<close>.
\<close>

theorem state_invariant:
  "(started (run es initial) \<longrightarrow> inRange (run es initial))
   \<and> (started (update e (run es initial)) \<longrightarrow> inRange (update e (run es initial)))
   \<and> length PHASES = 5"
proof -
  have s: "settled (run es initial)"
    by (rule settled_run [OF settled_initial])
  then have "started (run es initial) \<longrightarrow> inRange (run es initial)"
    by (simp add: settled_def inRange_def)
  moreover have "started (update e (run es initial)) \<longrightarrow> inRange (update e (run es initial))"
    using settled_update [OF s] by blast
  ultimately show ?thesis by simp
qed

theorem state_invariant_witness:
  "started (run [StartWithMinutes Two, Fire] initial)
   \<and> inRange (run [StartWithMinutes Two, Fire] initial)
   \<and> started (update Fire (run [StartWithMinutes Two, Fire] initial))
   \<and> inRange (update Fire (run [StartWithMinutes Two, Fire] initial))"
proof -
  have "started (run [StartWithMinutes Two, Fire] initial)"
    and "started (update Fire (run [StartWithMinutes Two, Fire] initial))"
    by code_simp+
  then show ?thesis
    using state_invariant [of "[StartWithMinutes Two, Fire]" Fire] by simp
qed

subsection \<open>Phase advancement\<close>

lemma updater_guard:
  "phaseIndex s \<le> phaseIndex (updaterRuns ps s)
   \<and> phaseIndex (updaterRuns ps s)
       \<le> (if isTransitioningRef s then phaseIndex s else phaseIndex s + 1)"
proof (induction ps arbitrary: s)
  case Nil
  then show ?case by simp
next
  case (Cons prev ps)
  let ?t = "phaseTimerCb (s\<lparr>remaining := prev\<rparr>)"
  have A: "isTransitioningRef ?t \<and> phaseIndex ?t = phaseIndex s" if "isTransitioningRef s"
    using that by (simp add: phaseTimerCb_cells)
  have B: "(phaseIndex ?t = phaseIndex s \<and> \<not> isTransitioningRef ?t)
      \<or> (phaseIndex ?t = phaseIndex s + 1 \<and> isTransitioningRef ?t)"
    if "\<not> isTransitioningRef s"
    using that by (simp add: phaseTimerCb_cells)
  show ?case
  proof (cases "isTransitioningRef s")
    case True
    then show ?thesis using Cons.IH [of ?t] A by simp
  next
    case False
    from B [OF False] show ?thesis
    proof
      assume "phaseIndex ?t = phaseIndex s \<and> \<not> isTransitioningRef ?t"
      then show ?thesis using Cons.IH [of ?t] False by simp
    next
      assume "phaseIndex ?t = phaseIndex s + 1 \<and> isTransitioningRef ?t"
      then show ?thesis using Cons.IH [of ?t] False by simp
    qed
  qed
qed

text \<open>
  C2. In a started session whose refs agree with the state: a tick at
  \<open>remaining \<le> 1000\<close> with a next phase advances the phase index by exactly 1 and, once
  the effects have run, \<open>remaining\<close> is the per-phase duration again; the index changes
  in no other tick; it never decreases and never exceeds \<open>length PHASES - 1\<close>; and however
  often the timer's updater runs before the effect of lines 176 to 179 clears the
  transition flag, the index advances at most once.
\<close>

theorem phase_advance:
  assumes "synced s" and "started s"
  shows "(remaining s \<le> 1000 \<and> phaseIndex s < int (length PHASES) - 1
          \<longrightarrow> phaseIndex (phaseTimerTick s) = phaseIndex s + 1
              \<and> remaining (phaseTimerTick s) = phaseDurationMs s)
    \<and> (phaseIndex (phaseTimerTick s) \<noteq> phaseIndex s
          \<longrightarrow> remaining s \<le> 1000 \<and> phaseIndex s < int (length PHASES) - 1)
    \<and> phaseIndex s \<le> phaseIndex (phaseTimerTick s)
    \<and> phaseIndex (phaseTimerTick s) \<le> phaseIndex s + 1
    \<and> (phaseIndex s \<le> int (length PHASES) - 1
          \<longrightarrow> phaseIndex (phaseTimerTick s) \<le> int (length PHASES) - 1)
    \<and> synced (phaseTimerTick s) \<and> started (phaseTimerTick s)
    \<and> phaseIndex s \<le> phaseIndex (updaterRuns ps s)
    \<and> phaseIndex (updaterRuns ps s) \<le> phaseIndex s + 1"
proof -
  have "phaseIndex s \<le> phaseIndex (updaterRuns ps s)
      \<and> phaseIndex (updaterRuns ps s) \<le> phaseIndex s + 1"
    using updater_guard [of s ps] by (simp split: if_splits)
  then show ?thesis
    using assms(2) phaseTimerTick_cells [OF assms(1)] by simp
qed

lemma end_of_first_phase:
  "core (run (StartWithMinutes Two # replicate 23 Fire) initial)
     = (True, 0, 24000, 1000, True, 0, False)"
  by code_simp

theorem phase_advance_witness:
  "synced (run (StartWithMinutes Two # replicate 23 Fire) initial)
   \<and> started (run (StartWithMinutes Two # replicate 23 Fire) initial)
   \<and> remaining (run (StartWithMinutes Two # replicate 23 Fire) initial) \<le> 1000
   \<and> phaseIndex (run (StartWithMinutes Two # replicate 23 Fire) initial)
       < int (length PHASES) - 1
   \<and> phaseIndex (phaseTimerTick (run (StartWithMinutes Two # replicate 23 Fire) initial)) = 1
   \<and> phaseIndex (phaseTimerTick (run (StartWithMinutes Two # replicate 23 Fire) initial))
       \<noteq> phaseIndex (run (StartWithMinutes Two # replicate 23 Fire) initial)
   \<and> remaining (phaseTimerTick (run (StartWithMinutes Two # replicate 23 Fire) initial))
       = 24000
   \<and> phaseIndex (updaterRuns [1000, 1000, 0]
        (run (StartWithMinutes Two # replicate 23 Fire) initial)) \<le> 1"
proof -
  let ?s = "run (StartWithMinutes Two # replicate 23 Fire) initial"
  have c: "started ?s" "phaseIndex ?s = 0" "phaseDurationMs ?s = 24000" "remaining ?s = 1000"
    "phaseIndexRef ?s = 0" "\<not> isTransitioningRef ?s"
    using end_of_first_phase by (simp_all add: core_def)
  then have a: "synced ?s" by (simp add: synced_def)
  show ?thesis
    using phase_advance [OF a c(1), of "[1000, 1000, 0]"] a c by simp
qed

subsection \<open>Commits in which no dependency, or only the completion flag, changes\<close>

lemma runEffects_same: "runEffects p p x = x"
  by (simp add: runEffects_def Let_def whenChanged_def)

lemma commit_same: "commit p p = p"
  by (simp add: commit_def runEffects_same sameCells_def)



lemma stopped_pauseAndRewind: "stopped (map_option pauseAndRewind x)"
  by (cases x) (simp_all add: stopped_def pauseAndRewind_def pause_def)

lemma setTimer_audio [simp]:
  "audioRef (setTimer cb d rep s) = audioRef s"
  "omAudioRef (setTimer cb d rep s) = omAudioRef s"
  "chimeAudioRef (setTimer cb d rep s) = chimeAudioRef s"
  by (simp_all add: setTimer_def)

lemma clearTimer_audio [simp]:
  "audioRef (clearTimer h s) = audioRef s"
  "omAudioRef (clearTimer h s) = omAudioRef s"
  "chimeAudioRef (clearTimer h s) = chimeAudioRef s"
  by (simp_all add: clearTimer_def)

lemma clearTimerOpt_audio [simp]:
  "audioRef (clearTimerOpt h s) = audioRef s"
  "omAudioRef (clearTimerOpt h s) = omAudioRef s"
  "chimeAudioRef (clearTimerOpt h s) = chimeAudioRef s"
  by (simp_all add: clearTimerOpt_def split: option.splits)

lemma omCleanup_audio:
  "audioRef (omCleanup s) = audioRef s"
  "chimeAudioRef (omCleanup s) = chimeAudioRef s"
  "stopped (omAudioRef s) \<Longrightarrow> stopped (omAudioRef (omCleanup s))"
  by (auto simp add: omCleanup_def stopped_pauseAndRewind split: option.splits)








lemma tick_complete_id:
  assumes "isComplete s" and "synced s"
  shows "phaseTimerTick s = s"
proof -
  have "phaseTimerCb s = s"
    using assms by (simp add: phaseTimerCb_def isComplete_def synced_def Let_def)
  then show ?thesis by (simp add: phaseTimerTick_def commit_same)
qed

lemma ticks_complete_id:
  assumes "isComplete s" and "synced s"
  shows "(phaseTimerTick ^^ n) s = s"
  by (induction n) (simp_all add: tick_complete_id [OF assms])

text \<open>The firing of the phase timer, in terms of the callback and the commit.\<close>

lemma fire_PhaseTimer:
  assumes "earliest (timers s) = Some t" and "callback t = PhaseTimer"
  shows "update Fire s =
      phaseTimerCb (s\<lparr>clock := max (clock s) (due t), timers := rearm t (timers s)\<rparr>)"
    and "handler Fire s =
      commit s (phaseTimerCb (s\<lparr>clock := max (clock s) (due t), timers := rearm t (timers s)\<rparr>))"
  using assms by (simp_all add: handler_def update_def fire_def runCallback_def)

subsection \<open>Ownership of the cue timers\<close>

lemma list_all_subset: "set ys \<subseteq> set xs \<Longrightarrow> list_all P xs \<Longrightarrow> list_all P ys"
  by (auto simp add: list_all_iff)

lemma ownedBy_simps [simp]:
  "ownedBy oe \<lparr>handle = h, due = d, every = rep, callback = PhaseTimer\<rparr>"
  "ownedBy oe \<lparr>handle = h, due = d, every = rep, callback = FadeTimeout\<rparr>"
  "ownedBy oe \<lparr>handle = h, due = d, every = rep, callback = FadeInterval k\<rparr>"
  "ownedBy oe \<lparr>handle = h, due = d, every = rep, callback = StartOmCycle\<rparr>
     \<longleftrightarrow> rep = None \<and> oe = Some (h, None)"
  by (simp_all add: ownedBy_def)

lemma ownedHum_filter: "ownedHum s \<Longrightarrow> ownedHum (s\<lparr>timers := filter P (timers s)\<rparr>)"
  by (simp add: ownedHum_def list_all_iff)

lemma ownedPhase_filter: "ownedPhase s \<Longrightarrow> ownedPhase (s\<lparr>timers := filter P (timers s)\<rparr>)"
  by (simp add: ownedPhase_def list_all_iff)

lemma clearTimer_fields [simp]:
  "omEffect (clearTimer h s) = omEffect s"
  "phaseTimerEffect (clearTimer h s) = phaseTimerEffect s"
  "timers (clearTimer h s) = filter (\<lambda>t. handle t \<noteq> h) (timers s)"
  "nextHandle (clearTimer h s) = nextHandle s"
  "clock (clearTimer h s) = clock s"
  by (simp_all add: clearTimer_def)

lemma clearTimerOpt_fields [simp]:
  "omEffect (clearTimerOpt h s) = omEffect s"
  "phaseTimerEffect (clearTimerOpt h s) = phaseTimerEffect s"
  "nextHandle (clearTimerOpt h s) = nextHandle s"
  "clock (clearTimerOpt h s) = clock s"
  by (simp_all add: clearTimerOpt_def split: option.splits)

lemma clearTimerOpt_timers:
  "timers (clearTimerOpt h s) = filter (\<lambda>t. Some (handle t) \<noteq> h) (timers s)"
  by (cases h) (simp_all add: clearTimerOpt_def)

lemma setTimer_fields [simp]:
  "omEffect (setTimer cb d rep s) = omEffect s"
  "phaseTimerEffect (setTimer cb d rep s) = phaseTimerEffect s"
  "timers (setTimer cb d rep s) =
     timers s @ [\<lparr>handle = nextHandle s, due = clock s + d, every = rep, callback = cb\<rparr>]"
  "nextHandle (setTimer cb d rep s) = Suc (nextHandle s)"
  "clock (setTimer cb d rep s) = clock s"
  by (simp_all add: setTimer_def)

text \<open>The hum callbacks.\<close>

lemma playOm_fields:
  "omEffect (playOm s) = omEffect s"
  "phaseTimerEffect (playOm s) = phaseTimerEffect s"
  "set (timers (playOm s)) \<subseteq>
     set (timers s) \<union> {\<lparr>handle = nextHandle s, due = clock s + 7000, every = None,
                            callback = FadeTimeout\<rparr>}"
  by (auto simp add: playOm_def Let_def clearTimerOpt_timers)

lemma ownedHum_playOm: "ownedHum s \<Longrightarrow> ownedHum (playOm s)"
  using playOm_fields(3) [of s]
  by (auto simp add: ownedHum_def list_all_iff playOm_fields ownedBy_def)

lemma ownedPhase_playOm: "ownedPhase s \<Longrightarrow> ownedPhase (playOm s)"
  using playOm_fields(3) [of s]
  by (auto simp add: ownedPhase_def list_all_iff playOm_fields isPhase_def)

lemma fadeTimeoutCb_fields:
  "omEffect (fadeTimeoutCb s) = omEffect s"
  "phaseTimerEffect (fadeTimeoutCb s) = phaseTimerEffect s"
  "set (timers (fadeTimeoutCb s)) \<subseteq>
     set (timers s) \<union> {\<lparr>handle = nextHandle s, due = clock s + 50, every = Some 50,
                            callback = FadeInterval 0\<rparr>}"
  by (auto simp add: fadeTimeoutCb_def split: option.splits)

lemma ownedHum_fadeTimeoutCb: "ownedHum s \<Longrightarrow> ownedHum (fadeTimeoutCb s)"
  using fadeTimeoutCb_fields(3) [of s]
  by (auto simp add: ownedHum_def list_all_iff fadeTimeoutCb_fields ownedBy_def)

lemma ownedPhase_fadeTimeoutCb: "ownedPhase s \<Longrightarrow> ownedPhase (fadeTimeoutCb s)"
  using fadeTimeoutCb_fields(3) [of s]
  by (auto simp add: ownedPhase_def list_all_iff fadeTimeoutCb_fields isPhase_def)

lemma fadeIntervalCb_fields:
  "omEffect (fadeIntervalCb h n s) = omEffect s"
  "phaseTimerEffect (fadeIntervalCb h n s) = phaseTimerEffect s"
  by (simp_all add: fadeIntervalCb_def Let_def split: option.splits)

lemma fadeIntervalCb_timers:
  assumes "u \<in> set (timers (fadeIntervalCb h n s))"
  shows "u \<in> set (timers s) \<or> (\<exists>k. callback u = FadeInterval k)"
  using assms
  by (auto simp add: fadeIntervalCb_def Let_def clearTimerOpt_timers
      split: option.splits if_splits)

lemma ownedHum_fadeIntervalCb:
  assumes "ownedHum s"
  shows "ownedHum (fadeIntervalCb h n s)"
  unfolding ownedHum_def list_all_iff fadeIntervalCb_fields
proof
  fix u
  assume "u \<in> set (timers (fadeIntervalCb h n s))"
  from fadeIntervalCb_timers [OF this] show "ownedBy (omEffect s) u"
  proof
    assume "u \<in> set (timers s)"
    then show ?thesis using assms by (simp add: ownedHum_def list_all_iff)
  next
    assume "\<exists>k. callback u = FadeInterval k"
    then show ?thesis by (auto simp add: ownedBy_def)
  qed
qed

lemma ownedPhase_fadeIntervalCb:
  assumes "ownedPhase s"
  shows "ownedPhase (fadeIntervalCb h n s)"
  unfolding ownedPhase_def list_all_iff fadeIntervalCb_fields
proof
  fix u
  assume "u \<in> set (timers (fadeIntervalCb h n s))"
  from fadeIntervalCb_timers [OF this]
  show "\<not> isPhase u \<or> phaseTimerEffect s = Some (handle u)"
  proof
    assume "u \<in> set (timers s)"
    then show ?thesis using assms by (simp add: ownedPhase_def list_all_iff)
  next
    assume "\<exists>k. callback u = FadeInterval k"
    then show ?thesis by (auto simp add: isPhase_def)
  qed
qed

text \<open>After the hum cleanup no hum timer is pending; the hum effect then owns what it mounts.\<close>

lemma omCleanup_fields:
  "omEffect (omCleanup s) = omEffect s"
  "phaseTimerEffect (omCleanup s) = phaseTimerEffect s"
  "set (timers (omCleanup s)) \<subseteq> set (timers s)"
  by (auto simp add: omCleanup_def clearTimerOpt_timers split: option.splits)

lemma omCleanup_noHum:
  assumes "ownedHum s"
  shows "list_all (\<lambda>t. \<not> isHum t) (timers (omCleanup s))"
proof (cases "omEffect s")
  case None
  then show ?thesis
    using assms
    by (auto simp add: omCleanup_def ownedHum_def list_all_iff isHum_def ownedBy_def)
next
  case (Some ci)
  obtain c i where ci: "ci = (c, i)" by (cases ci)
  show ?thesis
    using assms Some ci
    by (auto simp add: omCleanup_def ownedHum_def list_all_iff isHum_def ownedBy_def
        clearTimerOpt_timers split: option.splits)
qed

lemma ownedPhase_omCleanup: "ownedPhase s \<Longrightarrow> ownedPhase (omCleanup s)"
  unfolding ownedPhase_def omCleanup_fields
  by (rule list_all_subset [OF omCleanup_fields(3)])

lemma omMount_fields:
  "phaseTimerEffect (omMount r s) = phaseTimerEffect s"
  by (simp add: omMount_def)

lemma omMount_owned:
  assumes "list_all (\<lambda>t. \<not> isHum t) (timers s)"
  shows "ownedHum (omMount r s)"
proof -
  have "ownedBy oe t" if "t \<in> set (timers s)" for t oe
    using assms that
    by (auto simp add: list_all_iff isHum_def ownedBy_def split: Callback.splits)
  then show ?thesis
    by (simp add: omMount_def ownedHum_def list_all_iff)
qed

lemma ownedPhase_omMount: "ownedPhase s \<Longrightarrow> ownedPhase (omMount r s)"
  by (simp add: omMount_def ownedPhase_def list_all_iff isPhase_def)

lemma phaseTimerCleanup_fields:
  "omEffect (phaseTimerCleanup s) = omEffect s"
  "phaseTimerEffect (phaseTimerCleanup s) = phaseTimerEffect s"
  "set (timers (phaseTimerCleanup s)) \<subseteq> set (timers s)"
  by (auto simp add: phaseTimerCleanup_def clearTimerOpt_timers)

lemma phaseTimerCleanup_noPhase:
  assumes "ownedPhase s"
  shows "list_all (\<lambda>t. \<not> isPhase t) (timers (phaseTimerCleanup s))"
  using assms
  by (auto simp add: phaseTimerCleanup_def ownedPhase_def list_all_iff clearTimerOpt_timers)

lemma phaseTimerMount_fields:
  "omEffect (phaseTimerMount r s) = omEffect s"
  by (simp add: phaseTimerMount_def)

lemma phaseTimerMount_owned:
  assumes "list_all (\<lambda>t. \<not> isPhase t) (timers s)"
  shows "ownedPhase (phaseTimerMount r s)"
  using assms
  by (simp add: phaseTimerMount_def ownedPhase_def list_all_iff)

lemma ownedHum_phaseTimerMount: "ownedHum s \<Longrightarrow> ownedHum (phaseTimerMount r s)"
  by (simp add: phaseTimerMount_def ownedHum_def list_all_iff)

lemma noHum_phaseTimerCleanup:
  "list_all (\<lambda>t. \<not> isHum t) (timers s)
    \<Longrightarrow> list_all (\<lambda>t. \<not> isHum t) (timers (phaseTimerCleanup s))"
  by (rule list_all_subset [OF phaseTimerCleanup_fields(3)])

lemma ownedHum_phaseTimerCleanup: "ownedHum s \<Longrightarrow> ownedHum (phaseTimerCleanup s)"
  unfolding ownedHum_def phaseTimerCleanup_fields
  by (rule list_all_subset [OF phaseTimerCleanup_fields(3)])

lemma noPhase_omMount:
  "list_all (\<lambda>t. \<not> isPhase t) (timers s)
    \<Longrightarrow> list_all (\<lambda>t. \<not> isPhase t) (timers (omMount r s))"
  by (simp add: omMount_def list_all_iff isPhase_def)


text \<open>The effects that touch neither the timers nor the two effect closures.\<close>

lemma other_effects_timers [simp]:
  "timers (stopAudioEffect r s) = timers s"
  "omEffect (stopAudioEffect r s) = omEffect s"
  "phaseTimerEffect (stopAudioEffect r s) = phaseTimerEffect s"
  "timers (keepAmbienceEffect r s) = timers s"
  "omEffect (keepAmbienceEffect r s) = omEffect s"
  "phaseTimerEffect (keepAmbienceEffect r s) = phaseTimerEffect s"
  "timers (refEffect r s) = timers s"
  "omEffect (refEffect r s) = omEffect s"
  "phaseTimerEffect (refEffect r s) = phaseTimerEffect s"
  "timers (chimeEffect r s) = timers s"
  "omEffect (chimeEffect r s) = omEffect s"
  "phaseTimerEffect (chimeEffect r s) = phaseTimerEffect s"
  "timers (resetRemainingEffect r s) = timers s"
  "omEffect (resetRemainingEffect r s) = omEffect s"
  "phaseTimerEffect (resetRemainingEffect r s) = phaseTimerEffect s"
  "timers (muteEffect r s) = timers s"
  "omEffect (muteEffect r s) = omEffect s"
  "phaseTimerEffect (muteEffect r s) = phaseTimerEffect s"
  by (simp_all add: stopAudioEffect_def keepAmbienceEffect_def refEffect_def chimeEffect_def
      resetRemainingEffect_def muteEffect_def Let_def split: option.splits)

lemma whenChanged_True: "whenChanged True f s = f s"
  and whenChanged_False: "whenChanged False f s = s"
  by (simp_all add: whenChanged_def)

lemma hum_keep:
  "ownedHum s \<Longrightarrow> ownedHum (whenChanged c (stopAudioEffect r) s)"
  "ownedHum s \<Longrightarrow> ownedHum (whenChanged c (keepAmbienceEffect r) s)"
  "ownedHum s \<Longrightarrow> ownedHum (whenChanged c (refEffect r) s)"
  "ownedHum s \<Longrightarrow> ownedHum (whenChanged c (chimeEffect r) s)"
  "ownedHum s \<Longrightarrow> ownedHum (whenChanged c (resetRemainingEffect r) s)"
  "ownedHum s \<Longrightarrow> ownedHum (whenChanged c (muteEffect r) s)"
  "ownedHum s \<Longrightarrow> ownedHum (whenChanged c phaseTimerCleanup s)"
  "ownedHum s \<Longrightarrow> ownedHum (whenChanged c (phaseTimerMount r) s)"
  by (simp_all add: whenChanged_def ownedHum_phaseTimerCleanup ownedHum_phaseTimerMount)
    (simp_all add: ownedHum_def)

lemma noHum_keep:
  "list_all (\<lambda>t. \<not> isHum t) (timers s)
    \<Longrightarrow> list_all (\<lambda>t. \<not> isHum t) (timers (whenChanged c (stopAudioEffect r) s))"
  "list_all (\<lambda>t. \<not> isHum t) (timers s)
    \<Longrightarrow> list_all (\<lambda>t. \<not> isHum t) (timers (whenChanged c (keepAmbienceEffect r) s))"
  "list_all (\<lambda>t. \<not> isHum t) (timers s)
    \<Longrightarrow> list_all (\<lambda>t. \<not> isHum t) (timers (whenChanged c (refEffect r) s))"
  "list_all (\<lambda>t. \<not> isHum t) (timers s)
    \<Longrightarrow> list_all (\<lambda>t. \<not> isHum t) (timers (whenChanged c (chimeEffect r) s))"
  "list_all (\<lambda>t. \<not> isHum t) (timers s)
    \<Longrightarrow> list_all (\<lambda>t. \<not> isHum t) (timers (whenChanged c phaseTimerCleanup s))"
  by (simp_all add: whenChanged_def noHum_phaseTimerCleanup)

lemma phase_keep:
  "ownedPhase s \<Longrightarrow> ownedPhase (whenChanged c (stopAudioEffect r) s)"
  "ownedPhase s \<Longrightarrow> ownedPhase (whenChanged c (keepAmbienceEffect r) s)"
  "ownedPhase s \<Longrightarrow> ownedPhase (whenChanged c (refEffect r) s)"
  "ownedPhase s \<Longrightarrow> ownedPhase (whenChanged c (chimeEffect r) s)"
  "ownedPhase s \<Longrightarrow> ownedPhase (whenChanged c (resetRemainingEffect r) s)"
  "ownedPhase s \<Longrightarrow> ownedPhase (whenChanged c (muteEffect r) s)"
  "ownedPhase s \<Longrightarrow> ownedPhase (whenChanged c omCleanup s)"
  "ownedPhase s \<Longrightarrow> ownedPhase (whenChanged c (omMount r) s)"
  by (simp_all add: whenChanged_def ownedPhase_omCleanup ownedPhase_omMount)
    (simp_all add: ownedPhase_def)

lemma noPhase_keep:
  "list_all (\<lambda>t. \<not> isPhase t) (timers s)
    \<Longrightarrow> list_all (\<lambda>t. \<not> isPhase t) (timers (whenChanged c (stopAudioEffect r) s))"
  "list_all (\<lambda>t. \<not> isPhase t) (timers s)
    \<Longrightarrow> list_all (\<lambda>t. \<not> isPhase t) (timers (whenChanged c (keepAmbienceEffect r) s))"
  "list_all (\<lambda>t. \<not> isPhase t) (timers s)
    \<Longrightarrow> list_all (\<lambda>t. \<not> isPhase t) (timers (whenChanged c (refEffect r) s))"
  "list_all (\<lambda>t. \<not> isPhase t) (timers s)
    \<Longrightarrow> list_all (\<lambda>t. \<not> isPhase t) (timers (whenChanged c (chimeEffect r) s))"
  "list_all (\<lambda>t. \<not> isPhase t) (timers s)
    \<Longrightarrow> list_all (\<lambda>t. \<not> isPhase t) (timers (whenChanged c (omMount r) s))"
  by (simp_all add: whenChanged_def noPhase_omMount)

lemma runEffects_unfold:
  "runEffects p r s =
    whenChanged (ambienceOn p \<noteq> ambienceOn r \<or> started p \<noteq> started r
        \<or> isComplete p \<noteq> isComplete r) (muteEffect r)
     (whenChanged (phaseIndex p \<noteq> phaseIndex r \<or> started p \<noteq> started r
        \<or> phaseDurationMs p \<noteq> phaseDurationMs r) (resetRemainingEffect r)
     (whenChanged (started p \<noteq> started r \<or> phaseDurationMs p \<noteq> phaseDurationMs r)
        (phaseTimerMount r)
     (whenChanged (started p \<noteq> started r
        \<or> map_option key (current p) \<noteq> map_option key (current r)
        \<or> isComplete p \<noteq> isComplete r) (omMount r)
     (whenChanged (phaseIndex p \<noteq> phaseIndex r \<or> started p \<noteq> started r) (chimeEffect r)
     (whenChanged (phaseIndex p \<noteq> phaseIndex r) (refEffect r)
     (whenChanged (started p \<noteq> started r \<or> isComplete p \<noteq> isComplete r
        \<or> ambienceOn p \<noteq> ambienceOn r) (keepAmbienceEffect r)
     (whenChanged (isComplete p \<noteq> isComplete r) (stopAudioEffect r)
     (whenChanged (started p \<noteq> started r \<or> phaseDurationMs p \<noteq> phaseDurationMs r)
        phaseTimerCleanup
     (whenChanged (started p \<noteq> started r
        \<or> map_option key (current p) \<noteq> map_option key (current r)
        \<or> isComplete p \<noteq> isComplete r) omCleanup s)))))))))"
  by (simp add: runEffects_def Let_def)

lemma ownedHum_runEffects:
  assumes "ownedHum s"
  shows "ownedHum (runEffects p r s)"
proof (cases "started p \<noteq> started r
    \<or> map_option key (current p) \<noteq> map_option key (current r)
    \<or> isComplete p \<noteq> isComplete r")
  case True
  show ?thesis
    unfolding runEffects_unfold
    apply (simp only: True whenChanged_True)
    apply (intro hum_keep)
    apply (rule omMount_owned)
    apply (intro noHum_keep)
    apply (rule omCleanup_noHum [OF assms])
    done
next
  case False
  show ?thesis
    unfolding runEffects_unfold
    apply (simp only: False whenChanged_False)
    apply (intro hum_keep)
    apply (rule assms)
    done
qed

lemma ownedPhase_runEffects:
  assumes "ownedPhase s"
  shows "ownedPhase (runEffects p r s)"
proof (cases "started p \<noteq> started r \<or> phaseDurationMs p \<noteq> phaseDurationMs r")
  case True
  show ?thesis
    unfolding runEffects_unfold
    apply (simp only: True whenChanged_True)
    apply (intro phase_keep)
    apply (rule phaseTimerMount_owned)
    apply (intro noPhase_keep)
    apply (rule phaseTimerCleanup_noPhase)
    apply (intro phase_keep)
    apply (rule assms)
    done
next
  case False
  show ?thesis
    unfolding runEffects_unfold
    apply (simp only: False whenChanged_False)
    apply (intro phase_keep)
    apply (rule assms)
    done
qed

lemma owned_commit:
  assumes "owned r"
  shows "owned (commit p r)"
  using assms
  by (simp add: owned_def commit_def Let_def ownedHum_runEffects ownedPhase_runEffects)


text \<open>Ownership along the event loop.\<close>

lemma earliest_mem: "earliest ts = Some t \<Longrightarrow> t \<in> set ts"
  by (induction ts arbitrary: t) (auto split: option.splits if_splits)

lemma rearm_mem:
  assumes "u \<in> set (rearm t ts)"
  shows "\<exists>v \<in> set ts. handle u = handle v \<and> every u = every v \<and> callback u = callback v
           \<and> (every t = None \<longrightarrow> handle u \<noteq> handle t)"
proof (cases "every t")
  case None
  then show ?thesis using assms by (auto simp add: rearm_def)
next
  case (Some d)
  then obtain x where x: "x \<in> set ts"
    "u = (if handle x = handle t then x\<lparr>due := due x + d\<rparr> else x)"
    using assms by (auto simp add: rearm_def)
  show ?thesis
    using x(2) Some by (intro bexI [OF _ x(1)]) auto
qed

lemma ownedBy_cong:
  "handle u = handle v \<Longrightarrow> every u = every v \<Longrightarrow> callback u = callback v
    \<Longrightarrow> ownedBy oe u = ownedBy oe v"
  by (auto simp add: ownedBy_def split: Callback.splits)

lemma owned_rearm:
  assumes "owned s"
  shows "owned (s\<lparr>clock := c, timers := rearm t (timers s)\<rparr>)"
proof -
  have "ownedBy (omEffect s) u" if "u \<in> set (rearm t (timers s))" for u
  proof -
    from rearm_mem [OF that] obtain v where v: "v \<in> set (timers s)" "handle u = handle v"
      "every u = every v" "callback u = callback v" by blast
    then have "ownedBy (omEffect s) v"
      using assms by (simp add: owned_def ownedHum_def list_all_iff)
    then show ?thesis using ownedBy_cong [OF v(2,3,4)] by simp
  qed
  moreover have "\<not> isPhase u \<or> phaseTimerEffect s = Some (handle u)"
    if "u \<in> set (rearm t (timers s))" for u
  proof -
    from rearm_mem [OF that] obtain v where v: "v \<in> set (timers s)" "handle u = handle v"
      "callback u = callback v" by blast
    then have "\<not> isPhase v \<or> phaseTimerEffect s = Some (handle v)"
      using assms by (simp add: owned_def ownedPhase_def list_all_iff)
    then show ?thesis using v(2,3) by (simp add: isPhase_def)
  qed
  ultimately show ?thesis
    by (simp add: owned_def ownedHum_def ownedPhase_def list_all_iff)
qed

lemma noHum_after_StartOmCycle:
  assumes "ownedHum s" and "t \<in> set (timers s)" and "callback t = StartOmCycle"
  shows "list_all (\<lambda>u. \<not> isHum u) (rearm t (timers s))"
    and "omEffect s = Some (handle t, None)"
proof -
  have t: "every t = None" "omEffect s = Some (handle t, None)"
    using assms by (auto simp add: ownedHum_def list_all_iff ownedBy_def)
  show "omEffect s = Some (handle t, None)" by (rule t(2))
  have "\<not> isHum u" if "u \<in> set (rearm t (timers s))" for u
  proof
    assume h: "isHum u"
    from rearm_mem [OF that] t(1) obtain v where v: "v \<in> set (timers s)"
      "handle u = handle v" "every u = every v" "callback u = callback v"
      "handle u \<noteq> handle t" by blast
    have "ownedBy (omEffect s) v"
      using assms(1) v(1) by (simp add: ownedHum_def list_all_iff)
    then show False
      using h v(2,4,5) t(2) by (auto simp add: isHum_def ownedBy_def)
  qed
  then show "list_all (\<lambda>u. \<not> isHum u) (rearm t (timers s))"
    by (simp add: list_all_iff)
qed

lemma noHum_playOm:
  assumes "list_all (\<lambda>u. \<not> isHum u) (timers s)"
  shows "list_all (\<lambda>u. \<not> isHum u) (timers (playOm s))"
  using assms playOm_fields(3) [of s]
  by (auto simp add: list_all_iff isHum_def)

lemma playOmForExhale_ownedHum:
  assumes "list_all (\<lambda>u. \<not> isHum u) (timers s)" and "omEffect s = Some (c, i)"
  shows "ownedHum (playOmForExhale s)"
proof -
  have "ownedBy oe u" if "u \<in> set (timers (playOm s))" for u oe
    using noHum_playOm [OF assms(1)] that
    by (auto simp add: list_all_iff isHum_def ownedBy_def split: Callback.splits)
  then show ?thesis
    using assms(2)
    by (simp add: playOmForExhale_def Let_def ownedHum_def list_all_iff playOm_fields
        ownedBy_def)
qed

lemma playOmForExhale_ownedPhase: "ownedPhase s \<Longrightarrow> ownedPhase (playOmForExhale s)"
  using ownedPhase_playOm [of s]
  by (simp add: playOmForExhale_def Let_def ownedPhase_def list_all_iff playOm_fields
      isPhase_def)

lemma phaseTimerCb_fields [simp]:
  "timers (phaseTimerCb s) = timers s"
  "omEffect (phaseTimerCb s) = omEffect s"
  "phaseTimerEffect (phaseTimerCb s) = phaseTimerEffect s"
  "audioRef (phaseTimerCb s) = audioRef s"
  "omAudioRef (phaseTimerCb s) = omAudioRef s"
  "chimeAudioRef (phaseTimerCb s) = chimeAudioRef s"
  by (simp_all add: phaseTimerCb_def Let_def)

lemma owned_fire:
  assumes "owned s"
  shows "owned (fire s)"
proof (cases "earliest (timers s)")
  case None
  then show ?thesis using assms by (simp add: fire_def)
next
  case (Some t)
  let ?s = "s\<lparr>clock := max (clock s) (due t), timers := rearm t (timers s)\<rparr>"
  have o: "owned ?s" by (rule owned_rearm [OF assms])
  have f: "fire s = runCallback t ?s" using Some by (simp add: fire_def)
  have mem: "t \<in> set (timers s)" by (rule earliest_mem [OF Some])
  show ?thesis
  proof (cases "callback t")
    case PhaseTimer
    then show ?thesis
      using o f by (simp add: runCallback_def owned_def ownedHum_def ownedPhase_def)
  next
    case StartOmCycle
    have "ownedHum s" using assms by (simp add: owned_def)
    from noHum_after_StartOmCycle [OF this mem StartOmCycle]
    have "ownedHum (playOmForExhale ?s)"
      by (intro playOmForExhale_ownedHum [of _ "handle t" None]) simp_all
    moreover have "ownedPhase (playOmForExhale ?s)"
      using o by (intro playOmForExhale_ownedPhase) (simp add: owned_def)
    ultimately show ?thesis
      using f StartOmCycle by (simp add: runCallback_def owned_def)
  next
    case PlayOm
    then show ?thesis
      using o f by (simp add: runCallback_def owned_def ownedHum_playOm ownedPhase_playOm)
  next
    case FadeTimeout
    then show ?thesis
      using o f
      by (simp add: runCallback_def owned_def ownedHum_fadeTimeoutCb ownedPhase_fadeTimeoutCb)
  next
    case (FadeInterval n)
    then show ?thesis
      using o f
      by (simp add: runCallback_def owned_def ownedHum_fadeIntervalCb
          ownedPhase_fadeIntervalCb)
  qed
qed

lemma owned_update: "owned s \<Longrightarrow> owned (update e s)"
  by (cases e)
    (simp_all add: update_def owned_fire,
     simp_all add: owned_def ownedHum_def ownedPhase_def startWithMinutes_def Let_def
       returnToStart_def toggleAmbience_def)

lemma owned_handler: "owned s \<Longrightarrow> owned (handler e s)"
  by (simp add: handler_def owned_commit owned_update)

lemma owned_run: "owned s \<Longrightarrow> owned (run es s)"
proof (induction es arbitrary: s)
  case Nil
  then show ?case by (simp add: run_def)
next
  case (Cons e es)
  have "owned (step s e)"
    using Cons.prems owned_handler [of s e] by (simp add: step_def)
  then show ?case
    using Cons.IH [of "step s e"] by (simp add: run_def)
qed

lemma owned_initial: "owned initial"
  by (simp add: owned_def ownedHum_def ownedPhase_def initial_def)

subsection \<open>The terminal states\<close>

lemma runEffects_nochange:
  assumes "core p = core r"
  shows "runEffects p r x = x"
proof -
  have "isComplete p = isComplete r" "current p = current r"
    using assms by (simp_all add: core_eq_iff isComplete_def current_def)
  then show ?thesis
    using assms by (simp add: runEffects_def Let_def whenChanged_def core_eq_iff)
qed

lemma commit_nochange: "core p = core r \<Longrightarrow> commit p r = r"
  by (simp add: commit_def runEffects_nochange sameCells_def)







subsection \<open>Completion and the render after a phase advance\<close>

lemma snapshot_core: "snapshot s = (c, n) \<Longrightarrow> core s = c \<and> nextCallback s = n"
  by (auto simp add: snapshot_def core_def)

lemma nextCallback_PhaseTimer:
  assumes "nextCallback s = Some PhaseTimer"
  obtains t where "earliest (timers s) = Some t" and "callback t = PhaseTimer"
  using assms by (auto simp add: nextCallback_def)

lemma twoMinuteSession_reachable: "settled (twoMinuteSession n)" "owned (twoMinuteSession n)"
  unfolding twoMinuteSession_def
  by (rule settled_run [OF settled_initial], rule owned_run [OF owned_initial])

lemma session_226: "snapshot (twoMinuteSession 226) = ((True, 3, 24000, 1000, True, 3, False), Some PhaseTimer)"
  by code_simp





text \<open>
  C10. When the phase timer fires at \<open>remaining \<le> 1000\<close> below the last phase, the
  render committed first has the phase index advanced and \<open>remaining = 0\<close>, not yet the
  per-phase duration; when this is the advance into the last phase, \<open>isComplete\<close> holds
  in that render. Only the effects of that commit set \<open>remaining\<close> to the per-phase
  duration, after which \<open>isComplete\<close> is false again.
\<close>

theorem transient_render:
  assumes "synced s" and "started s" and "remaining s \<le> 1000"
    and "phaseIndex s < int (length PHASES) - 1" and "0 < phaseDurationMs s"
    and "nextCallback s = Some PhaseTimer"
  shows "phaseIndex (update Fire s) = phaseIndex s + 1
    \<and> remaining (update Fire s) = 0
    \<and> remaining (update Fire s) \<noteq> phaseDurationMs (update Fire s)
    \<and> (phaseIndex s + 1 = int (length PHASES) - 1 \<longrightarrow> isComplete (update Fire s))
    \<and> phaseIndex (handler Fire s) = phaseIndex s + 1
    \<and> remaining (handler Fire s) = phaseDurationMs s
    \<and> \<not> isComplete (handler Fire s)"
proof -
  from assms(6) obtain t where t: "earliest (timers s) = Some t" "callback t = PhaseTimer"
    by (rule nextCallback_PhaseTimer)
  show ?thesis
    unfolding fire_PhaseTimer [OF t]
    using assms(1-5)
    by (simp add: phaseTimerCb_cells commit_cells synced_def isComplete_def)
qed

theorem transient_render_witness:
  "snapshot (twoMinuteSession 226) = ((True, 3, 24000, 1000, True, 3, False), Some PhaseTimer)
   \<and> phaseIndex (update Fire (twoMinuteSession 226)) = 4
   \<and> remaining (update Fire (twoMinuteSession 226)) = 0
   \<and> isComplete (update Fire (twoMinuteSession 226))
   \<and> remaining (handler Fire (twoMinuteSession 226)) = 24000
   \<and> \<not> isComplete (handler Fire (twoMinuteSession 226))"
proof -
  let ?s = "twoMinuteSession 226"
  note c = snapshot_core [OF session_226]
  have p: "synced ?s"
    using twoMinuteSession_reachable(1) [of 226] by (simp add: settled_def)
  have q: "started ?s" "remaining ?s \<le> 1000" "phaseIndex ?s < int (length PHASES) - 1"
    "0 < phaseDurationMs ?s" "nextCallback ?s = Some PhaseTimer"
    using c by (simp_all add: core_def)
  have v: "phaseIndex ?s = 3" "phaseDurationMs ?s = 24000"
    using c by (simp_all add: core_def)
  show ?thesis
    using transient_render [OF p q] v session_226 by simp
qed

subsection \<open>Progress\<close>

lemma progress_eq:
  "progress s =
     min 100 (of_int (phaseIndex s) * 20
       + (1 - of_int (remaining s) / of_int (phaseDurationMs s)) * 20)"
  by (simp add: progress_def Let_def)

lemma progress_cong: "core a = core b \<Longrightarrow> progress a = progress b"
  by (simp add: progress_eq core_eq_iff)

lemma progress_inRange:
  assumes "inRange s" and "0 < phaseDurationMs s"
  shows "0 \<le> progress s" and "progress s \<le> 100"
    and "progress s = 100 \<longleftrightarrow> phaseIndex s = 4 \<and> remaining s = 0"
proof -
  define w :: rat where "w = of_int (remaining s) / of_int (phaseDurationMs s)"
  define i :: rat where "i = of_int (phaseIndex s)"
  have p: "progress s = min 100 (i * 20 + (1 - w) * 20)"
    by (simp only: progress_eq w_def i_def)
  have w: "0 \<le> w" "w \<le> 1"
    using assms by (simp_all add: inRange_def w_def)
  have i: "0 \<le> i" "i \<le> 4" "i = 4 \<longleftrightarrow> phaseIndex s = 4" "i \<noteq> 4 \<Longrightarrow> i \<le> 3"
    using assms by (auto simp add: inRange_def i_def)
  have w0: "w = 0 \<longleftrightarrow> remaining s = 0"
    using assms(2) by (simp add: w_def)
  show "0 \<le> progress s"
    unfolding p using w i by (simp add: min_def)
  show "progress s \<le> 100"
    unfolding p by simp
  have "min 100 (i * 20 + (1 - w) * 20) = 100 \<longleftrightarrow> i = 4 \<and> w = 0"
    using w i(1,2,4) by (cases "i = 4") (auto simp add: min_def)
  then show "progress s = 100 \<longleftrightarrow> phaseIndex s = 4 \<and> remaining s = 0"
    unfolding p using i(3) w0 by simp
qed

lemma progress_tick:
  assumes "settled s" and "started s"
  shows "progress s \<le> progress (phaseTimerTick s)"
proof -
  define d :: rat where "d = of_int (phaseDurationMs s)"
  define w :: rat where "w = of_int (remaining s) / d"
  define i :: rat where "i = of_int (phaseIndex s)"
  have s: "synced s" "0 \<le> phaseIndex s" "phaseIndex s \<le> 4" "0 < phaseDurationMs s"
    "0 \<le> remaining s" "remaining s \<le> phaseDurationMs s"
    using assms by (simp_all add: settled_def)
  have d: "0 < d" using s(4) by (simp add: d_def)
  have w: "0 \<le> w" "w \<le> 1" using s(4,5,6) by (simp_all add: w_def d_def)
  have p: "progress s = min 100 (i * 20 + (1 - w) * 20)"
    by (simp only: progress_eq w_def i_def d_def)
  note t = phaseTimerTick_cells [OF s(1)]
  consider "1000 < remaining s" | "remaining s \<le> 1000" "phaseIndex s < 4"
    | "remaining s \<le> 1000" "phaseIndex s = 4"
    using s(3) by linarith
  then show ?thesis
  proof cases
    case 1
    define w' :: rat where "w' = of_int (remaining s - 1000) / d"
    have "w' \<le> w"
      unfolding w'_def w_def using d by (intro divide_right_mono) simp_all
    moreover have "progress (phaseTimerTick s) = min 100 (i * 20 + (1 - w') * 20)"
      using 1 t(2,4,5) by (simp only: progress_eq w'_def i_def d_def) simp
    ultimately show ?thesis unfolding p by (simp add: min_def)
  next
    case 2
    have "progress (phaseTimerTick s) = min 100 ((i + 1) * 20 + (1 - 1) * 20)"
      using 2 t(2,4,5) assms(2) s(4) by (simp add: progress_eq i_def)
    then show ?thesis unfolding p using w by (simp add: min_def)
  next
    case 3
    have "progress (phaseTimerTick s) = 100"
      using 3 t(2,4,5) by (simp add: progress_eq)
    then show ?thesis unfolding p by simp
  qed
qed

lemma progress_handler_Fire:
  assumes "settled s" and "started s"
  shows "progress s \<le> progress (handler Fire s)"
  using handler_Fire_core [of s] progress_tick [OF assms]
    progress_cong [of "handler Fire s" s] progress_cong [of "handler Fire s" "phaseTimerTick s"]
  by auto

lemma started_handler_Fire: "started (handler Fire s) = started s"
  by (simp add: handler_def commit_cells update_def)
    (use fire_core [of s] in \<open>auto simp add: core_eq_iff phaseTimerCb_cells\<close>)

lemma progress_firings:
  assumes "settled s" and "started s"
  shows "progress s \<le> progress ((handler Fire ^^ n) s)
    \<and> settled ((handler Fire ^^ n) s) \<and> started ((handler Fire ^^ n) s)"
proof (induction n)
  case 0
  then show ?case using assms by simp
next
  case (Suc n)
  let ?t = "(handler Fire ^^ n) s"
  have "progress ?t \<le> progress (handler Fire ?t)"
    using Suc by (intro progress_handler_Fire) simp_all
  then show ?case
    using Suc settled_handler [of ?t Fire] started_handler_Fire [of ?t] by simp
qed


lemma update_Fire_duration: "phaseDurationMs (update Fire s) = phaseDurationMs s"
  using fire_core [of s] by (auto simp add: update_def core_eq_iff phaseTimerCb_cells)

lemma started_update_Fire: "started (update Fire s) = started s"
  using fire_core [of s] by (auto simp add: update_def core_eq_iff phaseTimerCb_cells)

text \<open>
  C4, as stated: progress never decreases over a run. In the 2-minute session the tick
  that ends the first phase commits a render with progress 40 (index 1, \<open>remaining\<close>
  still 0), and the next render, after the reset of \<open>remaining\<close>, has progress 20.
\<close>

theorem progress_monotone_counterexample:
  "progress (update Fire (twoMinuteSession 23)) = 40
   \<and> progress (handler Fire (twoMinuteSession 23)) = 20
   \<and> progress (handler Fire (twoMinuteSession 23))
       < progress (update Fire (twoMinuteSession 23))"
proof -
  have "progress (update Fire (twoMinuteSession 23)) = 40"
    and "progress (handler Fire (twoMinuteSession 23)) = 20"
    by code_simp+
  then show ?thesis by simp
qed

text \<open>
  C4, amended. In a started session, in a state in which all effects have run: progress
  lies in 0..100 and equals the completed phases' share \<open>phaseIndex * (100 / 5)\<close> plus
  the fraction \<open>(1 - remaining / phaseDurationMs) * (100 / 5)\<close> of the current phase;
  it does not decrease from such a state to the state after a tick and its effects, nor
  over any number of timer firings; and it is exactly 100 if and only if the session is
  complete (last phase and \<open>remaining = 0\<close>), also in the render a firing commits first.
\<close>

theorem progress_settled:
  assumes "settled s" and "started s"
  shows "0 \<le> progress s \<and> progress s \<le> 100
    \<and> progress s = of_int (phaseIndex s) * (100 / of_nat (length PHASES))
        + (1 - of_int (remaining s) / of_int (phaseDurationMs s))
          * (100 / of_nat (length PHASES))
    \<and> progress s \<le> progress (phaseTimerTick s)
    \<and> progress s \<le> progress ((handler Fire ^^ n) s)
    \<and> (progress s = 100 \<longleftrightarrow> isComplete s)
    \<and> (progress s = 100 \<longleftrightarrow> phaseIndex s = int (length PHASES) - 1 \<and> remaining s = 0)
    \<and> (progress (update Fire s) = 100 \<longleftrightarrow> isComplete (update Fire s))"
proof -
  have r: "inRange s" "0 < phaseDurationMs s"
    using assms by (simp_all add: settled_def inRange_def)
  note a = progress_inRange [OF r]
  have u: "inRange (update Fire s)" "0 < phaseDurationMs (update Fire s)"
    "started (update Fire s)"
    using settled_update [OF assms(1), of Fire] assms(2) r(2)
    by (simp_all add: started_update_Fire update_Fire_duration)
  define w :: rat where "w = of_int (remaining s) / of_int (phaseDurationMs s)"
  define i :: rat where "i = of_int (phaseIndex s)"
  have w: "0 \<le> w" using r by (simp add: inRange_def w_def)
  have i: "i \<le> 4" using r by (simp add: inRange_def i_def)
  have "min 100 (i * 20 + (1 - w) * 20) = i * 20 + (1 - w) * 20"
    using w i by (simp add: min_def)
  then have f: "progress s = of_int (phaseIndex s) * (100 / of_nat (length PHASES))
        + (1 - of_int (remaining s) / of_int (phaseDurationMs s))
          * (100 / of_nat (length PHASES))"
    by (simp add: progress_eq w_def i_def)
  have c: "progress s = 100 \<longleftrightarrow> isComplete s"
    using a(3) assms(2) by (simp add: isComplete_def)
  have c': "progress (update Fire s) = 100 \<longleftrightarrow> isComplete (update Fire s)"
    using progress_inRange(3) [OF u(1,2)] u(3) by (simp add: isComplete_def)
  show ?thesis
    using a(1,2) f progress_tick [OF assms] progress_firings [OF assms, of n] c c' a(3)
    by simp
qed

theorem progress_settled_witness:
  "settled (twoMinuteSession 23) \<and> started (twoMinuteSession 23)
   \<and> progress (twoMinuteSession 23) \<le> progress (phaseTimerTick (twoMinuteSession 23))
   \<and> progress (twoMinuteSession 23) \<le> progress ((handler Fire ^^ 50) (twoMinuteSession 23))
   \<and> progress (twoMinuteSession 23) \<noteq> 100 \<and> \<not> isComplete (twoMinuteSession 23)"
proof -
  have a: "settled (twoMinuteSession 23)"
    by (rule twoMinuteSession_reachable)
  have c: "core (twoMinuteSession 23) = (True, 0, 24000, 1000, True, 0, False)"
    unfolding twoMinuteSession_def by (rule end_of_first_phase)
  then have b: "started (twoMinuteSession 23)" "\<not> isComplete (twoMinuteSession 23)"
    by (simp_all add: core_def isComplete_def)
  show ?thesis
    using progress_settled [OF a b(1), of 50] a b by simp
qed

subsection \<open>The completion flag when the last phase begins\<close>




subsection \<open>Returning to the start while a hum is playing\<close>

lemma commit_code [code]:
  "commit p r =
    (if core p = core r then r
     else (let s = runEffects p r r in if sameCells r s then s else runEffects r s s))"
  by (simp add: commit_nochange) (simp add: commit_def)

text \<open>Stopping a session: what the two cleanups cancel.\<close>

lemma runEffects_stop_timers:
  assumes "started p" and "\<not> started r"
  shows "timers (runEffects p r x) = timers (phaseTimerCleanup (omCleanup x))"
  using assms
  by (simp add: runEffects_unfold whenChanged_def omMount_def phaseTimerMount_def
      chimeEffect_def)

lemma return_cancels_cue_timers:
  assumes "owned s" and "started s"
  shows "list_all isFade (timers (handler ReturnToStart s))"
proof -
  let ?r = "returnToStart s"
  have r: "\<not> started ?r" "owned ?r"
    using assms(1)
    by (simp_all add: returnToStart_def owned_def ownedHum_def ownedPhase_def)
  let ?x = "runEffects s ?r ?r"
  have same: "sameCells ?r ?x"
    using r(1) by (simp add: sameCells_def runEffects_cells)
  have h: "handler ReturnToStart s = ?x"
    using same by (simp add: handler_def update_def commit_def)
  have a: "list_all (\<lambda>t. \<not> isHum t) (timers (phaseTimerCleanup (omCleanup ?r)))"
    using r(2) by (intro noHum_phaseTimerCleanup omCleanup_noHum) (simp add: owned_def)
  have b: "list_all (\<lambda>t. \<not> isPhase t) (timers (phaseTimerCleanup (omCleanup ?r)))"
    using r(2) by (intro phaseTimerCleanup_noPhase ownedPhase_omCleanup) (simp add: owned_def)
  show ?thesis
    unfolding h runEffects_stop_timers [OF assms(2) r(1)]
    using a b by (simp add: list_all_iff isFade_def)
qed

text \<open>
  C9 at a concrete input. The 2-minute session is left with "Back" at 28 s, just after
  the first hum has started (29 timer firings: 28 ticks and the hum). The tick interval
  and the hum's own timers are cancelled and the hum is paused at position 0, but the
  fade timeout that \<^verbatim>\<open>playOm\<close> stored on the audio element is still pending. It fires 7 s
  after the hum started, with the session stopped, stores a new interval on the audio
  element and registers it; the first run of that interval changes the volume of the
  hum element.
\<close>

theorem return_leaves_fade_timer:
  "started (twoMinuteSession 29)
   \<and> clock (twoMinuteSession 29) = 28000
   \<and> \<not> started (run [ReturnToStart] (twoMinuteSession 29))
   \<and> timers (run [ReturnToStart] (twoMinuteSession 29)) =
        [\<lparr>handle = 3, due = 35000, every = None, callback = FadeTimeout\<rparr>]
   \<and> isPlaying (omAudioRef (twoMinuteSession 29))
   \<and> \<not> isPlaying (omAudioRef (run [ReturnToStart] (twoMinuteSession 29)))
   \<and> stopped (omAudioRef (run [ReturnToStart] (twoMinuteSession 29)))
   \<and> map_option fadeInterval (omAudioRef (run [ReturnToStart] (twoMinuteSession 29)))
        = Some None
   \<and> timers (run [ReturnToStart, Fire] (twoMinuteSession 29)) =
        [\<lparr>handle = 5, due = 35050, every = Some 50, callback = FadeInterval 0\<rparr>]
   \<and> map_option fadeInterval (omAudioRef (run [ReturnToStart, Fire] (twoMinuteSession 29)))
        = Some (Some 5)
   \<and> timers (run [ReturnToStart, Fire, Fire] (twoMinuteSession 29)) =
        [\<lparr>handle = 5, due = 35100, every = Some 50, callback = FadeInterval 1\<rparr>]
   \<and> map_option volume (omAudioRef (run [ReturnToStart, Fire, Fire] (twoMinuteSession 29)))
        \<noteq> map_option volume (omAudioRef (run [ReturnToStart, Fire] (twoMinuteSession 29)))"
  by code_simp

subsection \<open>Timers fire when they are due\<close>

lemma earliest_Some: "ts \<noteq> [] \<Longrightarrow> earliest ts \<noteq> None"
  by (cases ts) (simp_all split: option.splits)

lemma earliest_min: "earliest ts = Some t \<Longrightarrow> u \<in> set ts \<Longrightarrow> due t \<le> due u"
proof (induction ts arbitrary: t)
  case Nil
  then show ?case by simp
next
  case (Cons x xs)
  show ?case
  proof (cases "earliest xs")
    case None
    then have "xs = []" using earliest_Some [of xs] by auto
    then show ?thesis using Cons.prems None by simp
  next
    case (Some v)
    have v: "u \<in> set xs \<Longrightarrow> due v \<le> due u"
      using Cons.IH [OF Some] by simp
    show ?thesis
      using Cons.prems Some v by (auto split: if_splits)
  qed
qed

lemma punctualI:
  assumes "\<And>t. t \<in> set (timers s) \<Longrightarrow> clock s \<le> due t \<and> (every t = None \<or> 0 \<le> the (every t))"
  shows "punctual s"
  using assms by (simp add: punctual_def list_all_iff)

lemma punctualD:
  assumes "punctual s" and "t \<in> set (timers s)"
  shows "clock s \<le> due t" and "every t = None \<or> 0 \<le> the (every t)"
  using assms by (simp_all add: punctual_def list_all_iff)

lemma punctual_subset:
  assumes "punctual s" and "set (timers s') \<subseteq> set (timers s)" and "clock s' = clock s"
  shows "punctual s'"
  using assms by (auto simp add: punctual_def list_all_iff)

lemma punctual_setTimer:
  assumes "punctual s" and "0 \<le> d" and "rep = None \<or> 0 \<le> the rep"
  shows "punctual (setTimer cb d rep s)"
  using assms by (auto simp add: punctual_def list_all_iff)

lemma punctual_clearTimerOpt: "punctual s \<Longrightarrow> punctual (clearTimerOpt h s)"
  by (rule punctual_subset [where s = s]) (auto simp add: clearTimerOpt_timers)

lemma punctual_clearTimer: "punctual s \<Longrightarrow> punctual (clearTimer h s)"
  by (rule punctual_subset [where s = s]) auto

lemma punctual_audio_update: "punctual (s\<lparr>omAudioRef := a\<rparr>) = punctual s"
  by (simp add: punctual_def)

lemma punctual_effect_update:
  "punctual (s\<lparr>omEffect := e\<rparr>) = punctual s"
  "punctual (s\<lparr>phaseTimerEffect := f\<rparr>) = punctual s"
  by (simp_all add: punctual_def)

lemma punctual_playOm: "punctual s \<Longrightarrow> punctual (playOm s)"
  by (simp add: playOm_def Let_def punctual_audio_update punctual_setTimer
      punctual_clearTimerOpt)

lemma punctual_playOmForExhale: "punctual s \<Longrightarrow> punctual (playOmForExhale s)"
  by (simp add: playOmForExhale_def Let_def punctual_effect_update punctual_setTimer
      punctual_playOm)

lemma punctual_fadeTimeoutCb: "punctual s \<Longrightarrow> punctual (fadeTimeoutCb s)"
  by (simp add: fadeTimeoutCb_def punctual_audio_update punctual_setTimer
      split: option.splits)

lemma fadeIntervalCb_clock: "clock (fadeIntervalCb h n s) = clock s"
  by (simp add: fadeIntervalCb_def Let_def split: option.splits)

lemma fadeIntervalCb_timers_due:
  assumes "u \<in> set (timers (fadeIntervalCb h n s))"
  shows "\<exists>v \<in> set (timers s). due u = due v \<and> every u = every v"
  using assms
  by (auto simp add: fadeIntervalCb_def Let_def clearTimerOpt_timers
      split: option.splits if_splits)

lemma punctual_fadeIntervalCb:
  assumes "punctual s"
  shows "punctual (fadeIntervalCb h n s)"
proof (rule punctualI)
  fix t
  assume "t \<in> set (timers (fadeIntervalCb h n s))"
  from fadeIntervalCb_timers_due [OF this] obtain v where
    v: "v \<in> set (timers s)" "due t = due v" "every t = every v" by blast
  show "clock (fadeIntervalCb h n s) \<le> due t \<and> (every t = None \<or> 0 \<le> the (every t))"
    using punctualD [OF assms v(1)] v(2,3) by (simp add: fadeIntervalCb_clock)
qed

lemma punctual_phaseTimerCb: "punctual (phaseTimerCb s) = punctual s"
  by (simp add: punctual_def phaseTimerCb_def Let_def)

lemma punctual_omCleanup: "punctual s \<Longrightarrow> punctual (omCleanup s)"
  by (auto simp add: omCleanup_def punctual_audio_update punctual_clearTimerOpt
      punctual_clearTimer split: option.splits)

lemma punctual_omMount: "punctual s \<Longrightarrow> punctual (omMount r s)"
  by (simp add: omMount_def punctual_effect_update punctual_setTimer)

lemma punctual_phaseTimerCleanup: "punctual s \<Longrightarrow> punctual (phaseTimerCleanup s)"
  by (simp add: phaseTimerCleanup_def punctual_clearTimerOpt)

lemma punctual_phaseTimerMount: "punctual s \<Longrightarrow> punctual (phaseTimerMount r s)"
  by (simp add: phaseTimerMount_def punctual_effect_update punctual_setTimer)

lemma other_effects_clock [simp]:
  "clock (stopAudioEffect r s) = clock s"
  "clock (keepAmbienceEffect r s) = clock s"
  "clock (refEffect r s) = clock s"
  "clock (chimeEffect r s) = clock s"
  "clock (resetRemainingEffect r s) = clock s"
  "clock (muteEffect r s) = clock s"
  by (simp_all add: stopAudioEffect_def keepAmbienceEffect_def refEffect_def chimeEffect_def
      resetRemainingEffect_def muteEffect_def Let_def split: option.splits)

lemma punctual_keep:
  "punctual s \<Longrightarrow> punctual (whenChanged c (stopAudioEffect r) s)"
  "punctual s \<Longrightarrow> punctual (whenChanged c (keepAmbienceEffect r) s)"
  "punctual s \<Longrightarrow> punctual (whenChanged c (refEffect r) s)"
  "punctual s \<Longrightarrow> punctual (whenChanged c (chimeEffect r) s)"
  "punctual s \<Longrightarrow> punctual (whenChanged c (resetRemainingEffect r) s)"
  "punctual s \<Longrightarrow> punctual (whenChanged c (muteEffect r) s)"
  "punctual s \<Longrightarrow> punctual (whenChanged c omCleanup s)"
  "punctual s \<Longrightarrow> punctual (whenChanged c (omMount r) s)"
  "punctual s \<Longrightarrow> punctual (whenChanged c phaseTimerCleanup s)"
  "punctual s \<Longrightarrow> punctual (whenChanged c (phaseTimerMount r) s)"
  by (simp_all add: whenChanged_def punctual_omCleanup punctual_omMount
      punctual_phaseTimerCleanup punctual_phaseTimerMount)
    (simp_all add: punctual_def)

lemma punctual_runEffects: "punctual s \<Longrightarrow> punctual (runEffects p r s)"
  unfolding runEffects_unfold by (intro punctual_keep)

lemma punctual_commit: "punctual r \<Longrightarrow> punctual (commit p r)"
  by (simp add: commit_def Let_def punctual_runEffects)

lemma callbacks_clock:
  "clock (playOm s) = clock s" "clock (playOmForExhale s) = clock s"
  "clock (fadeTimeoutCb s) = clock s" "clock (phaseTimerCb s) = clock s"
  by (simp_all add: playOm_def playOmForExhale_def fadeTimeoutCb_def phaseTimerCb_def Let_def
      split: option.splits)

lemma runCallback_clock: "clock (runCallback t s) = clock s"
  by (cases "callback t") (simp_all add: runCallback_def callbacks_clock fadeIntervalCb_clock)

lemma punctual_runCallback: "punctual s \<Longrightarrow> punctual (runCallback t s)"
  by (cases "callback t")
    (simp_all add: runCallback_def punctual_phaseTimerCb punctual_playOmForExhale
      punctual_playOm punctual_fadeTimeoutCb punctual_fadeIntervalCb)

lemma rearm_due:
  assumes "u \<in> set (rearm t ts)"
  shows "\<exists>v \<in> set ts. every u = every v
           \<and> (due u = due v \<or> (\<exists>d. every t = Some d \<and> due u = due v + d))"
proof (cases "every t")
  case None
  then show ?thesis using assms by (auto simp add: rearm_def)
next
  case (Some d)
  then obtain x where x: "x \<in> set ts"
    "u = (if handle x = handle t then x\<lparr>due := due x + d\<rparr> else x)"
    using assms by (auto simp add: rearm_def)
  show ?thesis
    using x(2) Some by (intro bexI [OF _ x(1)]) auto
qed

lemma punctual_fire:
  assumes "punctual s"
  shows "punctual (fire s)"
    and "earliest (timers s) = Some t \<Longrightarrow> clock (fire s) = due t"
proof -
  show "punctual (fire s)"
  proof (cases "earliest (timers s)")
    case None
    then show ?thesis using assms by (simp add: fire_def)
  next
    case (Some t)
    let ?s = "s\<lparr>clock := max (clock s) (due t), timers := rearm t (timers s)\<rparr>"
    have mem: "t \<in> set (timers s)" by (rule earliest_mem [OF Some])
    have ck: "max (clock s) (due t) = due t"
      using punctualD(1) [OF assms mem] by simp
    have "punctual ?s"
    proof (rule punctualI)
      fix u
      assume "u \<in> set (timers ?s)"
      then have "u \<in> set (rearm t (timers s))" by simp
      from rearm_due [OF this] obtain v where v: "v \<in> set (timers s)" "every u = every v"
        "due u = due v \<or> (\<exists>d. every t = Some d \<and> due u = due v + d)" by blast
      have "due t \<le> due v" by (rule earliest_min [OF Some v(1)])
      moreover have "0 \<le> d" if "every t = Some d" for d
        using punctualD(2) [OF assms mem] that by simp
      ultimately have "due t \<le> due u" using v(3) by auto
      then show "clock ?s \<le> due u \<and> (every u = None \<or> 0 \<le> the (every u))"
        using ck punctualD(2) [OF assms v(1)] v(2) by simp
    qed
    then show ?thesis
      using Some by (simp add: fire_def punctual_runCallback)
  qed
  show "clock (fire s) = due t" if "earliest (timers s) = Some t"
    using that punctualD(1) [OF assms earliest_mem [OF that]]
    by (simp add: fire_def runCallback_clock)
qed



lemma punctual_same_timers:
  assumes "punctual s" and "timers s' = timers s" and "clock s' = clock s"
  shows "punctual s'"
  using assms by (simp add: punctual_def)

lemma punctual_update:
  assumes "punctual s" and "enabled e s"
  shows "punctual (update e s)"
proof (cases e)
  case (StartWithMinutes m)
  have "punctual (startWithMinutes m s)"
    by (rule punctual_same_timers [OF assms(1)]) (simp_all add: startWithMinutes_def Let_def)
  then show ?thesis using StartWithMinutes by (simp add: update_def)
next
  case ReturnToStart
  have "punctual (returnToStart s)"
    by (rule punctual_same_timers [OF assms(1)]) (simp_all add: returnToStart_def)
  then show ?thesis using ReturnToStart by (simp add: update_def)
next
  case ToggleAmbience
  have "punctual (toggleAmbience s)"
    by (rule punctual_same_timers [OF assms(1)]) (simp_all add: toggleAmbience_def)
  then show ?thesis using ToggleAmbience by (simp add: update_def)
next
  case Fire
  then show ?thesis
    using punctual_fire(1) [OF assms(1)] by (simp add: update_def)
next
  case (Elapse t)
  have "list_all (\<lambda>u. t \<le> due u) (timers s)"
    using assms(2) Elapse by (simp add: enabled_def)
  then have "punctual (s\<lparr>clock := t\<rparr>)"
    using assms(1) by (simp add: punctual_def list_all_iff)
  then show ?thesis using Elapse by (simp add: update_def)
qed

lemma punctual_handler:
  assumes "punctual s" and "enabled e s"
  shows "punctual (handler e s)"
  unfolding handler_def by (rule punctual_commit [OF punctual_update [OF assms]])

lemma punctual_run: "punctual s \<Longrightarrow> punctual (run es s)"
proof (induction es arbitrary: s)
  case Nil
  then show ?case by (simp add: run_def)
next
  case (Cons e es)
  have "punctual (step s e)"
    using Cons.prems punctual_handler [of s e] by (simp add: step_def)
  then show ?case
    using Cons.IH [of "step s e"] by (simp add: run_def)
qed

lemma punctual_initial: "punctual initial"
  by (simp add: punctual_def initial_def)

lemma whenChanged_clock:
  "(\<And>x. clock (f x) = clock x) \<Longrightarrow> clock (whenChanged c f s) = clock s"
  by (simp add: whenChanged_def)

lemma cleanup_mount_clock [simp]:
  "clock (omCleanup s) = clock s"
  "clock (omMount r s) = clock s"
  "clock (phaseTimerCleanup s) = clock s"
  "clock (phaseTimerMount r s) = clock s"
  by (simp_all add: omCleanup_def omMount_def phaseTimerCleanup_def phaseTimerMount_def
      split: option.splits)

lemma runEffects_clock: "clock (runEffects p r s) = clock s"
  unfolding runEffects_unfold by (simp only: whenChanged_clock other_effects_clock cleanup_mount_clock)

lemma commit_clock: "clock (commit p r) = clock r"
  by (simp add: commit_def Let_def runEffects_clock)

lemma fires_when_due:
  assumes "punctual s" and "earliest (timers s) = Some t"
  shows "clock (handler Fire s) = due t"
  using punctual_fire(2) [OF assms] by (simp add: handler_def update_def commit_clock)


subsection \<open>The hum cue\<close>

lemma hum_log_two:
  "cueLog (sessionFirings (perPhase Two)) (handler (StartWithMinutes Two) initial)
     = humScheduleSpec (perPhase Two)"
  by code_simp

lemma hum_log_five:
  "cueLog (sessionFirings (perPhase Five)) (handler (StartWithMinutes Five) initial)
     = humScheduleSpec (perPhase Five)"
  by code_simp

lemma hum_log_ten:
  "cueLog (sessionFirings (perPhase Ten)) (handler (StartWithMinutes Ten) initial)
     = humScheduleSpec (perPhase Ten)"
  by code_simp

lemma current_first: "phaseIndex r = 0 \<Longrightarrow> map_option key (current r) = Some P1"
  by (simp add: current_def PHASES_def)

lemma current_later:
  assumes "0 < phaseIndex r" and "phaseIndex r < int (length PHASES)"
  shows "current r \<noteq> None" and "map_option key (current r) \<noteq> Some P1"
proof -
  have "phaseIndex r = 1 \<or> phaseIndex r = 2 \<or> phaseIndex r = 3 \<or> phaseIndex r = 4"
    using assms by (simp add: PHASES_def) arith
  then show "current r \<noteq> None" and "map_option key (current r) \<noteq> Some P1"
    by (auto simp add: current_def PHASES_def)
qed

lemma omMount_first_phase:
  "phaseIndex r = 0 \<Longrightarrow> timers (omMount r s) = timers s \<and> omEffect (omMount r s) = None"
  by (simp add: omMount_def current_first)

lemma omMount_hum_phase:
  assumes "started r" and "0 < phaseIndex r" and "phaseIndex r < int (length PHASES)"
    and "\<not> isComplete r"
  shows "timers (omMount r s) =
      timers s @ [\<lparr>handle = nextHandle s, due = clock s + 4000, every = None,
                   callback = StartOmCycle\<rparr>]
    \<and> omEffect (omMount r s) = Some (nextHandle s, None)"
  using assms(1,4) current_later [OF assms(2,3)] by (simp add: omMount_def)

text \<open>What is heard of the hum, with its volume.\<close>

lemma playOm_hum:
  "map_option (\<lambda>a. (\<not> paused a, currentTime a, volume a)) (omAudioRef (playOm s))
     = Some (True, 0, 2 / 10)"
  "last (timers (playOm s)) =
     \<lparr>handle = nextHandle s, due = clock s + 7000, every = None, callback = FadeTimeout\<rparr>"
  by (simp_all add: playOm_def Let_def play_def)

lemma playOm_counters [simp]:
  "nextHandle (playOm s) = Suc (nextHandle s)" "clock (playOm s) = clock s"
  by (simp_all add: playOm_def Let_def)

lemma playOmForExhale_hum:
  "omAudioRef (playOmForExhale s) = omAudioRef (playOm s)"
  "last (timers (playOmForExhale s)) =
     \<lparr>handle = Suc (nextHandle s), due = clock s + 12000, every = Some 12000,
      callback = PlayOm\<rparr>"
  by (simp_all add: playOmForExhale_def Let_def)

lemma fadeTimeoutCb_hum:
  assumes "omAudioRef s \<noteq> None"
  shows "last (timers (fadeTimeoutCb s)) =
     \<lparr>handle = nextHandle s, due = clock s + 50, every = Some 50,
      callback = FadeInterval 0\<rparr>"
    and "humState (fadeTimeoutCb s) = humState s"
  using assms by (auto simp add: fadeTimeoutCb_def humState_def)

lemma ramp_positive:
  assumes "k + 1 < (20::nat)"
  shows "max 0 (2 / 10 * (1 - of_nat (k + 1) / 20)) = (2 / 10 * (1 - of_nat (k + 1) / 20) :: rat)"
proof -
  have "(of_nat (k + 1) :: rat) < 20"
    using assms by (metis of_nat_less_iff of_nat_numeral)
  then show ?thesis by (simp add: field_simps max_def)
qed

lemma fadeIntervalCb_ramp:
  assumes "k + 1 < 20"
  shows "map_option (\<lambda>a. (\<not> paused a, volume a)) (omAudioRef (fadeIntervalCb h k s)) =
     map_option (\<lambda>a. (\<not> paused a, 2 / 10 * (1 - of_nat (k + 1) / 20))) (omAudioRef s)"
proof (cases "omAudioRef s")
  case None
  then show ?thesis by (simp add: fadeIntervalCb_def)
next
  case (Some a)
  from ramp_positive [OF assms] show ?thesis
    using Some assms by (simp add: fadeIntervalCb_def Let_def)
qed

lemma fadeIntervalCb_last:
  "map_option (\<lambda>a. (\<not> paused a, currentTime a, volume a))
       (omAudioRef (fadeIntervalCb h 19 s)) =
     map_option (\<lambda>a. (False, 0, 0)) (omAudioRef s)"
  by (cases "omAudioRef s")
    (simp_all add: fadeIntervalCb_def Let_def pauseAndRewind_def pause_def)

lemma session_30:
  "(snapshot (twoMinuteSession 30), humState (twoMinuteSession 30),
    earliest (timers (twoMinuteSession 30)))
     = (((True, 1, 24000, 19000, True, 1, False), Some PhaseTimer), Some True,
        Some \<lparr>handle = 1, due = 30000, every = Some 1000, callback = PhaseTimer\<rparr>)"
  by code_simp

text \<open>
  C8. Over the whole of each session that can be started (2, 5 or 10 minutes), the timer
  firings other than the ticks are exactly the hum schedule of the specification: in
  every phase but the first the hum fires 4 s after the phase start and then every 12 s
  until the phase ends, each time starting the hum; 7 s later the fade starts and runs
  in 20 steps of 50 ms, the last step stopping the hum. In every reachable state the
  timer that fires next fires exactly when it is due. In every state: the hum effect
  registers nothing in the first phase and a timeout of 4000 ms in a later phase; the
  first firing registers the interval of 12000 ms; each firing plays from position 0 at
  volume 0.2 and registers the fade timeout of 7000 ms, which registers the fade interval
  of 1000 / 20 ms without touching the playback; run \<open>k + 1 < 20\<close> of that interval sets
  the volume to \<open>0.2 * (1 - (k + 1) / 20)\<close> (in exact arithmetic) and leaves the hum
  playing, and run 20 sets the volume to 0, pauses the hum and rewinds it to position 0.
\<close>

theorem hum_schedule:
  "cueLog (sessionFirings (perPhase m)) (handler (StartWithMinutes m) initial)
     = humScheduleSpec (perPhase m)
   \<and> (earliest (timers (run es initial)) = Some t
        \<longrightarrow> clock (handler Fire (run es initial)) = due t)
   \<and> (phaseIndex r0 = 0 \<longrightarrow> timers (omMount r0 s) = timers s)
   \<and> (started r \<and> 0 < phaseIndex r \<and> phaseIndex r < int (length PHASES) \<and> \<not> isComplete r
        \<longrightarrow> timers (omMount r s) =
              timers s @ [\<lparr>handle = nextHandle s, due = clock s + 4000, every = None,
                           callback = StartOmCycle\<rparr>])
   \<and> omAudioRef (playOmForExhale s) = omAudioRef (playOm s)
   \<and> last (timers (playOmForExhale s)) =
        \<lparr>handle = Suc (nextHandle s), due = clock s + 12000, every = Some 12000,
         callback = PlayOm\<rparr>
   \<and> map_option (\<lambda>a. (\<not> paused a, currentTime a, volume a)) (omAudioRef (playOm s))
        = Some (True, 0, 2 / 10)
   \<and> last (timers (playOm s)) =
        \<lparr>handle = nextHandle s, due = clock s + 7000, every = None, callback = FadeTimeout\<rparr>
   \<and> (omAudioRef s \<noteq> None
        \<longrightarrow> last (timers (fadeTimeoutCb s)) =
              \<lparr>handle = nextHandle s, due = clock s + 1000 div 20,
               every = Some (1000 div 20), callback = FadeInterval 0\<rparr>
            \<and> humState (fadeTimeoutCb s) = humState s)
   \<and> (k + 1 < 20
        \<longrightarrow> map_option (\<lambda>a. (\<not> paused a, volume a)) (omAudioRef (fadeIntervalCb h k s)) =
            map_option (\<lambda>a. (\<not> paused a, 2 / 10 * (1 - of_nat (k + 1) / 20)))
              (omAudioRef s))
   \<and> map_option (\<lambda>a. (\<not> paused a, currentTime a, volume a))
          (omAudioRef (fadeIntervalCb h 19 s)) =
        map_option (\<lambda>a. (False, 0, 0)) (omAudioRef s)"
proof -
  have a: "cueLog (sessionFirings (perPhase m)) (handler (StartWithMinutes m) initial)
      = humScheduleSpec (perPhase m)"
    by (cases m) (simp_all only: hum_log_two hum_log_five hum_log_ten)
  have b: "earliest (timers (run es initial)) = Some t
      \<Longrightarrow> clock (handler Fire (run es initial)) = due t"
    by (rule fires_when_due [OF punctual_run [OF punctual_initial]])
  have c: "omAudioRef s \<noteq> None
      \<Longrightarrow> last (timers (fadeTimeoutCb s)) =
              \<lparr>handle = nextHandle s, due = clock s + 1000 div 20,
               every = Some (1000 div 20), callback = FadeInterval 0\<rparr>
            \<and> humState (fadeTimeoutCb s) = humState s"
    using fadeTimeoutCb_hum [of s] by simp
  show ?thesis
    using a b c omMount_first_phase [of r0 s] omMount_hum_phase [of r s] playOm_hum [of s]
      playOmForExhale_hum [of s] fadeIntervalCb_ramp [of k h s] fadeIntervalCb_last [of h s]
    by blast
qed

theorem hum_schedule_witness:
  "earliest (timers (run (StartWithMinutes Two # replicate 30 Fire) initial))
     = Some \<lparr>handle = 1, due = 30000, every = Some 1000, callback = PhaseTimer\<rparr>
   \<and> clock (handler Fire (run (StartWithMinutes Two # replicate 30 Fire) initial)) = 30000
   \<and> phaseIndex initial = 0
   \<and> timers (omMount initial (twoMinuteSession 30)) = timers (twoMinuteSession 30)
   \<and> started (twoMinuteSession 30) \<and> 0 < phaseIndex (twoMinuteSession 30)
   \<and> phaseIndex (twoMinuteSession 30) < int (length PHASES)
   \<and> \<not> isComplete (twoMinuteSession 30)
   \<and> timers (omMount (twoMinuteSession 30) (twoMinuteSession 30)) =
        timers (twoMinuteSession 30)
          @ [\<lparr>handle = nextHandle (twoMinuteSession 30),
               due = clock (twoMinuteSession 30) + 4000, every = None,
               callback = StartOmCycle\<rparr>]
   \<and> omAudioRef (twoMinuteSession 30) \<noteq> None
   \<and> last (timers (fadeTimeoutCb (twoMinuteSession 30))) =
        \<lparr>handle = nextHandle (twoMinuteSession 30),
         due = clock (twoMinuteSession 30) + 50, every = Some 50,
         callback = FadeInterval 0\<rparr>
   \<and> (9::nat) + 1 < 20
   \<and> map_option (\<lambda>a. (\<not> paused a, volume a))
        (omAudioRef (fadeIntervalCb 5 9 (twoMinuteSession 30))) = Some (True, 1 / 10)"
proof -
  let ?s = "twoMinuteSession 30"
  let ?t = "\<lparr>handle = 1, due = 30000, every = Some 1000, callback = PhaseTimer\<rparr>"
  have s: "run (StartWithMinutes Two # replicate 30 Fire) initial = ?s"
    by (simp only: twoMinuteSession_def)
  have x: "snapshot ?s = ((True, 1, 24000, 19000, True, 1, False), Some PhaseTimer)"
    and h: "humState ?s = Some True"
    and e: "earliest (timers ?s) = Some ?t"
    using session_30 by (simp_all only: prod.inject)
  have c: "core ?s = (True, 1, 24000, 19000, True, 1, False)"
    using snapshot_core [OF x] by simp
  have p: "started ?s" "0 < phaseIndex ?s" "phaseIndex ?s < int (length PHASES)"
    "\<not> isComplete ?s"
    using c by (simp_all add: core_def isComplete_def)
  obtain a where a: "omAudioRef ?s = Some a" "\<not> paused a"
    using h by (auto simp add: humState_def)
  have i: "phaseIndex initial = 0" by (simp add: initial_def)
  have f: "map_option (\<lambda>a. (\<not> paused a, volume a))
        (omAudioRef (fadeIntervalCb 5 9 ?s)) = Some (True, 1 / 10)"
    using hum_schedule [where s = ?s and h = 5 and k = 9] a by simp
  show ?thesis
    unfolding s
    using hum_schedule [where m = Two and es = "StartWithMinutes Two # replicate 30 Fire"
        and t = ?t and ?r0.0 = initial and r = ?s and s = ?s and h = 5 and k = 9]
      p a(1) i e f
    unfolding s by simp
qed

end
